theory Spec2Isabelle
  imports Main "HOL-Library.Word"
begin

section \<open>JavaScript strings\<close>

text \<open>
  A JavaScript string is a sequence of 16-bit code units. The ballot-box glyphs the
  checklist code looks for (U+2610, U+2611, U+2612, U+25A1) are single code units.
  \<open>js\<close> turns an ASCII literal of the source into such a string.
\<close>

type_synonym jschar = "16 word"
type_synonym jsstring = "jschar list"

definition js :: "string \<Rightarrow> jsstring" where
  "js s = map of_char s"

definition dot :: jschar where
  "dot = 0x2E"

definition is_digit :: "jschar \<Rightarrow> bool" where
  \<comment> \<open>the class \<open>\d\<close> of a JavaScript regular expression: \<open>0\<close> to \<open>9\<close> only\<close>
  "is_digit c \<longleftrightarrow> c \<in> set [0x30, 0x31, 0x32, 0x33, 0x34, 0x35, 0x36, 0x37, 0x38, 0x39]"

definition isWhiteSpace :: "jschar \<Rightarrow> bool" where
  \<comment> \<open>white space and line terminators: what \<open>trim()\<close> strips and \<open>\s\<close> matches\<close>
  "isWhiteSpace c \<longleftrightarrow>
     c \<in> set [0x09, 0x0A, 0x0B, 0x0C, 0x0D, 0x20, 0xA0, 0x1680, 0x2000, 0x2001, 0x2002,
              0x2003, 0x2004, 0x2005, 0x2006, 0x2007, 0x2008, 0x2009, 0x200A, 0x2028,
              0x2029, 0x202F, 0x205F, 0x3000, 0xFEFF]"

definition trim :: "jsstring \<Rightarrow> jsstring" where
  "trim s = rev (dropWhile isWhiteSpace (rev (dropWhile isWhiteSpace s)))"

text \<open>
  \<open>s.split(sep)\<close> for a separator that is one code unit (or a regular expression that
  is a class of single code units): a new part starts after every separator, and the
  empty string gives one empty part.
\<close>

fun split_on :: "('a \<Rightarrow> bool) \<Rightarrow> 'a list \<Rightarrow> 'a list list" where
  "split_on D [] = [[]]"
| "split_on D (c # cs) =
     (if D c then [] # split_on D cs
      else (case split_on D cs of
              [] \<Rightarrow> [[c]]
            | p # ps \<Rightarrow> (c # p) # ps))"


section \<open>Regular expressions\<close>

text \<open>
  The regular expressions of the source are kept as syntax and run by a matcher
  (derivatives, one code unit at a time). \<open>test_anchored r s\<close> is
  \<open>/^r$/.test(s)\<close>.
\<close>

datatype rexp =
    Empty
  | Eps
  | Sym "jschar \<Rightarrow> bool"
  | Alt rexp rexp
  | Seq rexp rexp
  | Star rexp

fun nullable :: "rexp \<Rightarrow> bool" where
  "nullable Empty = False"
| "nullable Eps = True"
| "nullable (Sym p) = False"
| "nullable (Alt r s) = (nullable r \<or> nullable s)"
| "nullable (Seq r s) = (nullable r \<and> nullable s)"
| "nullable (Star r) = True"

fun deriv :: "jschar \<Rightarrow> rexp \<Rightarrow> rexp" where
  "deriv c Empty = Empty"
| "deriv c Eps = Empty"
| "deriv c (Sym p) = (if p c then Eps else Empty)"
| "deriv c (Alt r s) = Alt (deriv c r) (deriv c s)"
| "deriv c (Seq r s) =
     (if nullable r then Alt (Seq (deriv c r) s) (deriv c s) else Seq (deriv c r) s)"
| "deriv c (Star r) = Seq (deriv c r) (Star r)"

fun test_anchored :: "rexp \<Rightarrow> jsstring \<Rightarrow> bool" where
  "test_anchored r [] = nullable r"
| "test_anchored r (c # cs) = test_anchored (deriv c r) cs"

definition Plus :: "rexp \<Rightarrow> rexp" where
  \<comment> \<open>\<open>r+\<close>\<close>
  "Plus r = Seq r (Star r)"

definition AtLeast2 :: "rexp \<Rightarrow> rexp" where
  \<comment> \<open>\<open>r{2,}\<close>\<close>
  "AtLeast2 r = Seq r (Seq r (Star r))"

definition enumeration_re :: rexp where
  \<comment> \<open>\<open>/^\d+(\.\d+){2,}\.*$/\<close>\<close>
  "enumeration_re =
     Seq (Plus (Sym is_digit))
       (Seq (AtLeast2 (Seq (Sym (\<lambda>c. c = dot)) (Plus (Sym is_digit))))
            (Star (Sym (\<lambda>c. c = dot))))"

text \<open>The words a regular expression denotes; used to reason about the matcher.\<close>

inductive_set star :: "jsstring set \<Rightarrow> jsstring set" for A :: "jsstring set" where
  star_nil: "[] \<in> star A"
| star_app: "u \<in> A \<Longrightarrow> v \<in> star A \<Longrightarrow> u @ v \<in> star A"

fun lang :: "rexp \<Rightarrow> jsstring set" where
  "lang Empty = {}"
| "lang Eps = {[]}"
| "lang (Sym p) = {[c] | c. p c}"
| "lang (Alt r s) = lang r \<union> lang s"
| "lang (Seq r s) = {u @ v | u v. u \<in> lang r \<and> v \<in> lang s}"
| "lang (Star r) = star (lang r)"


section \<open>The document tree\<close>

text \<open>
  A node is a text node or an element with its children. An element carries what the
  scripts read or write: tag name (upper case for the HTML elements of an HTML
  document, as \<open>tagName\<close> reports it), id, class, \<open>style.display\<close>, further
  properties by name, and the names of the handlers registered on it.
\<close>

record element =
  tagName :: jsstring
  ident :: jsstring
  className :: jsstring
  display :: jsstring
  props :: "(string \<times> jsstring) list"
  listeners :: "(string \<times> string) list"

datatype node =
    TextNode jsstring
  | Element element "node list"

fun textContent :: "node \<Rightarrow> jsstring" where
  "textContent (TextNode s) = s"
| "textContent (Element a cs) = concat (map textContent cs)"


section \<open>fixEnumerationNumbering\<close>

definition strip_trailing_dots :: "jsstring \<Rightarrow> jsstring" where
  \<comment> \<open>\<open>text.replace(/\.+$/, '')\<close>: the run of dots that ends the string is removed\<close>
  "strip_trailing_dots s = rev (dropWhile (\<lambda>c. c = dot) (rev s))"

definition fix_dt :: "jsstring \<Rightarrow> jsstring option" where
  \<comment> \<open>the callback of \<open>dts.forEach\<close>, on \<open>dt.textContent\<close>: the new \<open>textContent\<close>
      when it assigns one\<close>
  "fix_dt textContent0 =
     (let text = trim textContent0 in
      if test_anchored enumeration_re text then
        (let parts = split_on (\<lambda>c. c = dot) (strip_trailing_dots text);
             lastNum = last parts
         in Some (lastNum @ js ''.''))
      else None)"

text \<open>
  \<open>querySelectorAll('dt')\<close> lists the \<open>dt\<close> elements in document order, an element
  before its descendants; assigning \<open>textContent\<close> replaces the children of the
  element by one text node.
\<close>

fun fixEnumerationNumbering :: "node \<Rightarrow> node" where
  "fixEnumerationNumbering (TextNode s) = TextNode s"
| "fixEnumerationNumbering (Element a cs) =
     (if tagName a = js ''DT'' then
        (case fix_dt (concat (map textContent cs)) of
           Some t \<Rightarrow> Element a [TextNode t]
         | None \<Rightarrow> Element a (map fixEnumerationNumbering cs))
      else Element a (map fixEnumerationNumbering cs))"

text \<open>
  The words of the specification: a text ``consists of three or more dot-separated
  integer components optionally followed by trailing dots''. \<open>join_dots\<close> is
  \<open>comps.join('.')\<close>.
\<close>

fun join_dots :: "jsstring list \<Rightarrow> jsstring" where
  "join_dots [] = []"
| "join_dots [c] = c"
| "join_dots (c # d # cs) = c @ dot # join_dots (d # cs)"

definition integer_component :: "jsstring \<Rightarrow> bool" where
  "integer_component c \<longleftrightarrow> c \<noteq> [] \<and> list_all is_digit c"

definition enumeration_components :: "jsstring list \<Rightarrow> bool" where
  "enumeration_components comps \<longleftrightarrow> 3 \<le> length comps \<and> list_all integer_component comps"

fun dt_free :: "node \<Rightarrow> bool" where
  "dt_free (TextNode s) = True"
| "dt_free (Element a cs) = (tagName a \<noteq> js ''DT'' \<and> list_all dt_free cs)"

definition plain :: "string \<Rightarrow> element" where
  \<comment> \<open>an element of the given tag with no id, class, style or other property\<close>
  "plain t = \<lparr>tagName = js t, ident = [], className = [], display = [], props = [],
              listeners = []\<rparr>"


section \<open>Values parsed from storage\<close>

text \<open>
  What \<open>JSON.parse\<close> returns, and \<open>undefined\<close> for a property that is not there.
  The values are read the way the checklist code reads them: by truthiness, by the
  properties \<open>checkboxes\<close>, \<open>date\<close> and \<open>signature\<close> (names no built-in
  prototype defines), by index, and as strings. A number is a double; the code never
  computes with one, so \<open>Num nonzero printed\<close> keeps of a number what these four
  readings see: whether it is different from zero, and the string \<open>String(n)\<close> gives
  for it.
\<close>

datatype jsval =
    Undefined
  | Null
  | Bool bool
  | Num bool jsstring
  | Str jsstring
  | Arr "jsval list"
  | Obj "(jsstring \<times> jsval) list"

datatype exn = TypeError | SyntaxError | SecurityError | QuotaExceededError

fun truthy :: "jsval \<Rightarrow> bool" where
  "truthy Undefined = False"
| "truthy Null = False"
| "truthy (Bool b) = b"
| "truthy (Num nonzero printed) = nonzero"
| "truthy (Str s) = (s \<noteq> [])"
| "truthy (Arr xs) = True"
| "truthy (Obj kvs) = True"

function decimal :: "nat \<Rightarrow> jsstring" where
  "decimal n =
     (if n < 10 then [[0x30, 0x31, 0x32, 0x33, 0x34, 0x35, 0x36, 0x37, 0x38, 0x39] ! n]
      else decimal (n div 10)
           @ [[0x30, 0x31, 0x32, 0x33, 0x34, 0x35, 0x36, 0x37, 0x38, 0x39] ! (n mod 10)])"
  by pat_completeness auto
termination
  by (relation "measure id") auto

fun get_prop :: "jsval \<Rightarrow> jsstring \<Rightarrow> exn + jsval" where
  \<comment> \<open>\<open>v.name\<close>; in an object parsed from JSON the last of several equal keys counts\<close>
  "get_prop Undefined name = Inl TypeError"
| "get_prop Null name = Inl TypeError"
| "get_prop (Obj kvs) name =
     Inr (case map_of (rev kvs) name of Some v \<Rightarrow> v | None \<Rightarrow> Undefined)"
| "get_prop v name = Inr Undefined"

fun get_index :: "jsval \<Rightarrow> nat \<Rightarrow> exn + jsval" where
  \<comment> \<open>\<open>v[index]\<close> for a number \<open>index\<close>\<close>
  "get_index Undefined i = Inl TypeError"
| "get_index Null i = Inl TypeError"
| "get_index (Arr xs) i = Inr (if i < length xs then xs ! i else Undefined)"
| "get_index (Str s) i = Inr (if i < length s then Str [s ! i] else Undefined)"
| "get_index (Obj kvs) i =
     Inr (case map_of (rev kvs) (decimal i) of Some v \<Rightarrow> v | None \<Rightarrow> Undefined)"
| "get_index v i = Inr Undefined"

fun join_commas :: "jsstring list \<Rightarrow> jsstring" where
  "join_commas [] = []"
| "join_commas [c] = c"
| "join_commas (c # d # cs) = c @ 0x2C # join_commas (d # cs)"

fun ToString :: "jsval \<Rightarrow> jsstring" where
  "ToString Undefined = js ''undefined''"
| "ToString Null = js ''null''"
| "ToString (Bool b) = (if b then js ''true'' else js ''false'')"
| "ToString (Num nonzero printed) = printed"
| "ToString (Str s) = s"
| "ToString (Arr xs) =
     join_commas (map (\<lambda>x. if x = Undefined \<or> x = Null then [] else ToString x) xs)"
| "ToString (Obj kvs) = js ''[object Object]''"


section \<open>The storage slot\<close>

text \<open>
  The string kept under the key \<open>labManualChecklist\<close> is represented by what
  \<open>JSON.parse\<close> makes of it: the value it denotes, or a string that does not parse
  (the empty string is one). \<open>JSON.stringify\<close> of the state object gives a text
  that parses back to that object. Storage can refuse access altogether, or refuse
  writes for lack of room.
\<close>

datatype stored = JSON jsval | NotJSON jsstring

record localStorage =
  accessible :: bool
  full :: bool
  slot :: "stored option"

definition getItem :: "localStorage \<Rightarrow> exn + stored option" where
  "getItem st = (if accessible st then Inr (slot st) else Inl SecurityError)"

definition setItem :: "localStorage \<Rightarrow> stored \<Rightarrow> exn + localStorage" where
  "setItem st v =
     (if \<not> accessible st then Inl SecurityError
      else if full st then Inl QuotaExceededError
      else Inr (st\<lparr>slot := Some v\<rparr>))"

fun JSON_parse :: "stored \<Rightarrow> exn + jsval" where
  "JSON_parse (JSON v) = Inr v"
| "JSON_parse (NotJSON s) = Inl SyntaxError"

definition JSON_stringify :: "jsval \<Rightarrow> stored" where
  "JSON_stringify v = JSON v"

fun is_empty_string :: "stored \<Rightarrow> bool" where
  "is_empty_string (NotJSON s) = (s = [])"
| "is_empty_string (JSON v) = False"


section \<open>The signature canvas\<close>

text \<open>
  The canvas is its bitmap: the pixels in row order, each with red, green, blue and
  alpha. \<open>getImageData(...).data\<close> is the flat array of these bytes.
  \<open>clearRect\<close> over the whole surface makes every pixel transparent black.
  How one pixel is painted over another (\<open>drawImage\<close>, source-over) and how a
  bitmap is encoded as a data URL and decoded again belong to the browser and are
  parameters: \<open>paint\<close>, \<open>toDataURL\<close>, \<open>decode\<close>.
\<close>

type_synonym rgba = "8 word \<times> 8 word \<times> 8 word \<times> 8 word"
type_synonym bitmap = "rgba list"

definition transparent :: rgba where
  "transparent = (0, 0, 0, 0)"

fun alpha :: "rgba \<Rightarrow> 8 word" where
  "alpha (r, g, b, a) = a"

fun getImageData :: "bitmap \<Rightarrow> 8 word list" where
  "getImageData [] = []"
| "getImageData ((r, g, b, a) # ps) = r # g # b # a # getImageData ps"

definition clearRect :: "bitmap \<Rightarrow> bitmap" where
  "clearRect c = map (\<lambda>_. transparent) c"

fun drawImage :: "(rgba \<Rightarrow> rgba \<Rightarrow> rgba) \<Rightarrow> bitmap \<Rightarrow> bitmap \<Rightarrow> bitmap" where
  \<comment> \<open>\<open>ctx.drawImage(img, 0, 0)\<close> for an image of the canvas's size\<close>
  "drawImage paint [] c = c"
| "drawImage paint (p # img) [] = []"
| "drawImage paint (p # img) (q # c) = paint p q # drawImage paint img c"

function scan_alpha :: "8 word list \<Rightarrow> nat \<Rightarrow> bool" where
  \<comment> \<open>\<open>for (var i = 3; i < pixelData.length; i += 4)\<close> with its \<open>break\<close>\<close>
  "scan_alpha pixelData i =
     (if i < length pixelData then
        (if pixelData ! i > 0 then True else scan_alpha pixelData (i + 4))
      else False)"
  by pat_completeness auto
termination
  by (relation "measure (\<lambda>(pixelData, i). length pixelData - i)") auto

definition hasSignature :: "bitmap \<Rightarrow> bool" where
  "hasSignature c = scan_alpha (getImageData c) 3"


section \<open>The date field\<close>

text \<open>
  The date field is an \<open>input\<close> of type \<open>date\<close>. Assigning to its \<open>value\<close> runs the
  value sanitization of that type: a value that is not a valid date string becomes the
  empty string. A valid date string is a year of four or more digits that is not zero,
  a month from \<open>01\<close> to \<open>12\<close> and a day of that month, each of the last two with two
  digits, joined by \<open>-\<close>.
\<close>

definition digit_values :: "(jschar \<times> nat) list" where
  "digit_values =
     [(0x30, 0), (0x31, 1), (0x32, 2), (0x33, 3), (0x34, 4), (0x35, 5), (0x36, 6), (0x37, 7),
      (0x38, 8), (0x39, 9)]"

definition number_of_digits :: "jsstring \<Rightarrow> nat" where
  \<comment> \<open>the number a string of digits denotes in base ten\<close>
  "number_of_digits s =
     fold (\<lambda>c n. 10 * n + (case map_of digit_values c of Some v \<Rightarrow> v | None \<Rightarrow> 0)) s 0"

definition days_in_month :: "nat \<Rightarrow> nat \<Rightarrow> nat" where
  "days_in_month year month =
     (if month \<in> set [1, 3, 5, 7, 8, 10, 12] then 31
      else if month \<in> set [4, 6, 9, 11] then 30
      else if year mod 400 = 0 \<or> (year mod 4 = 0 \<and> year mod 100 \<noteq> 0) then 29
      else 28)"

definition valid_date_string :: "jsstring \<Rightarrow> bool" where
  "valid_date_string s =
     (case split_on (\<lambda>c. c = 0x2D) s of
        [year, month, day] \<Rightarrow>
          4 \<le> length year \<and> list_all is_digit year \<and> 0 < number_of_digits year
          \<and> length month = 2 \<and> list_all is_digit month
          \<and> 1 \<le> number_of_digits month \<and> number_of_digits month \<le> 12
          \<and> length day = 2 \<and> list_all is_digit day
          \<and> 1 \<le> number_of_digits day
          \<and> number_of_digits day \<le> days_in_month (number_of_digits year) (number_of_digits month)
      | _ \<Rightarrow> False)"

definition sanitize_date :: "jsstring \<Rightarrow> jsstring" where
  \<comment> \<open>the value an \<open>input\<close> of type \<open>date\<close> holds after \<open>value = s\<close>\<close>
  "sanitize_date s = (if valid_date_string s then s else [])"


section \<open>The interactive form\<close>

text \<open>
  The state the handlers work on, as their DOM queries find it:
  \<open>checkboxes\<close> is \<open>querySelectorAll('.interactive-checklist input[type="checkbox"]')\<close>
  in document order, each checkbox with its \<open>checked\<close> flag and the \<open>completed\<close>
  class of its parent item; \<open>dateInput\<close> is the value of the element with id
  \<open>signature-date\<close> (the date field the builder creates), if there is one;
  \<open>signatureCanvas\<close> is the global of that name
  (set together with \<open>signatureCtx\<close> by \<open>initSignatureCanvas\<close>), holding the bitmap;
  \<open>loading\<close> lists the sources of the images created by \<open>loadChecklistState\<close> whose
  \<open>onload\<close> has not run yet.
\<close>

record checkbox =
  checked :: bool
  completed :: bool

record page =
  checkboxes :: "checkbox list"
  dateInput :: "jsstring option"
  signatureCanvas :: "bitmap option"
  storage :: localStorage
  loading :: "jsstring list"

datatype effect =
    Alert jsstring
  | GeneratePDF jsstring
  | MailtoAndPrint jsstring

definition saveChecklistState :: "(bitmap \<Rightarrow> jsstring) \<Rightarrow> page \<Rightarrow> page" where
  "saveChecklistState toDataURL p =
     (let state = Obj
            [(js ''checkboxes'', Arr (map (\<lambda>cb. Bool (checked cb)) (checkboxes p))),
             (js ''date'', Str (case dateInput p of Some v \<Rightarrow> v | None \<Rightarrow> [])),
             (js ''signature'',
                Str (case signatureCanvas p of Some c \<Rightarrow> toDataURL c | None \<Rightarrow> []))]
      in case setItem (storage p) (JSON_stringify state) of
           Inr st \<Rightarrow> p\<lparr>storage := st\<rparr>
         | Inl e \<Rightarrow> p)"

definition entry_truthy :: "jsval \<Rightarrow> nat \<Rightarrow> exn + bool" where
  \<comment> \<open>\<open>state.checkboxes && state.checkboxes[index]\<close>\<close>
  "entry_truthy state index =
     (case get_prop state (js ''checkboxes'') of
        Inl e \<Rightarrow> Inl e
      | Inr c \<Rightarrow>
          if truthy c then
            (case get_index c index of Inl e \<Rightarrow> Inl e | Inr v \<Rightarrow> Inr (truthy v))
          else Inr False)"

fun restore_checkboxes :: "jsval \<Rightarrow> nat \<Rightarrow> checkbox list \<Rightarrow> checkbox list \<times> exn option" where
  \<comment> \<open>the \<open>checkboxes.forEach\<close> of \<open>loadChecklistState\<close>, from \<open>index\<close> on: the
      checkboxes as they are when the loop ends or throws\<close>
  "restore_checkboxes state index [] = ([], None)"
| "restore_checkboxes state index (cb # cbs) =
     (case entry_truthy state index of
        Inl e \<Rightarrow> (cb # cbs, Some e)
      | Inr b \<Rightarrow>
          (let cb' = (if b then cb\<lparr>checked := True, completed := True\<rparr> else cb);
               (cbs', e) = restore_checkboxes state (index + 1) cbs
           in (cb' # cbs', e)))"

definition load_try :: "page \<Rightarrow> page \<times> exn option" where
  \<comment> \<open>the \<open>try\<close> block of \<open>loadChecklistState\<close>: the page when the block ends, and the
      exception if one was thrown\<close>
  "load_try p =
     (case getItem (storage p) of
        Inl e \<Rightarrow> (p, Some e)
      | Inr None \<Rightarrow> (p, None)
      | Inr (Some saved) \<Rightarrow>
          if is_empty_string saved then (p, None)
          else
            (case JSON_parse saved of
               Inl e \<Rightarrow> (p, Some e)
             | Inr state \<Rightarrow>
                 (let (cbs, e) = restore_checkboxes state 0 (checkboxes p);
                      p1 = p\<lparr>checkboxes := cbs\<rparr>
                  in case e of
                       Some e \<Rightarrow> (p1, Some e)
                     | None \<Rightarrow>
                         (case get_prop state (js ''date'') of
                            Inl e \<Rightarrow> (p1, Some e)
                          | Inr d \<Rightarrow>
                              (let p2 = (if truthy d \<and> dateInput p1 \<noteq> None
                                         then p1\<lparr>dateInput := Some (sanitize_date (ToString d))\<rparr>
                                         else p1)
                               in case get_prop state (js ''signature'') of
                                    Inl e \<Rightarrow> (p2, Some e)
                                  | Inr sg \<Rightarrow>
                                      if truthy sg \<and> signatureCanvas p2 \<noteq> None
                                      then (p2\<lparr>loading := loading p2 @ [ToString sg]\<rparr>, None)
                                      else (p2, None))))))"

definition loadChecklistState :: "page \<Rightarrow> page" where
  \<comment> \<open>\<open>catch (e) { }\<close>: the exception is dropped\<close>
  "loadChecklistState p = fst (load_try p)"

definition img_onload ::
  "(jsstring \<Rightarrow> bitmap option) \<Rightarrow> (rgba \<Rightarrow> rgba \<Rightarrow> rgba) \<Rightarrow> jsstring \<Rightarrow> page \<Rightarrow> page" where
  \<comment> \<open>the image with source \<open>src\<close> has arrived: \<open>img.onload\<close> draws it; an image
      that cannot be decoded never fires \<open>onload\<close>\<close>
  "img_onload decode paint src p =
     (if src \<in> set (loading p) then
        (let p' = p\<lparr>loading := remove1 src (loading p)\<rparr>
         in case (decode src, signatureCanvas p') of
              (Some img, Some c) \<Rightarrow> p'\<lparr>signatureCanvas := Some (drawImage paint img c)\<rparr>
            | _ \<Rightarrow> p')
      else p)"

definition clearSignature :: "(bitmap \<Rightarrow> jsstring) \<Rightarrow> page \<Rightarrow> page" where
  "clearSignature toDataURL p =
     (case signatureCanvas p of
        Some c \<Rightarrow> saveChecklistState toDataURL (p\<lparr>signatureCanvas := Some (clearRect c)\<rparr>)
      | None \<Rightarrow> p)"

definition allChecked :: "checkbox list \<Rightarrow> bool" where
  \<comment> \<open>\<open>var allChecked = true; checkboxes.forEach(... if (!cb.checked) allChecked = false)\<close>\<close>
  "allChecked cbs = fold (\<lambda>cb acc. if \<not> checked cb then False else acc) cbs True"

definition export_preconditions :: "page \<Rightarrow> (jsstring \<Rightarrow> effect) \<Rightarrow> page \<times> effect" where
  \<comment> \<open>the body that both versions of \<open>emailChecklist\<close> share, up to what they do
      with the date once the three checks have passed\<close>
  "export_preconditions p export =
     (if \<not> allChecked (checkboxes p) then
        (p, Alert (js ''Please check all items before submitting.''))
      else if (case signatureCanvas p of
                 Some c \<Rightarrow> \<not> hasSignature c
               | None \<Rightarrow> False) then
        (p, Alert (js ''Please add your signature before submitting.''))
      else
        (case dateInput p of
           None \<Rightarrow> (p, Alert (js ''Please enter the date before submitting.''))
         | Some v \<Rightarrow>
             if v = [] then (p, Alert (js ''Please enter the date before submitting.''))
             else (p, export v)))"

definition emailChecklist :: "page \<Rightarrow> page \<times> effect" where
  \<comment> \<open>the current version: \<open>generateChecklistPDF(dateInput.value)\<close>\<close>
  "emailChecklist p = export_preconditions p GeneratePDF"

definition emailChecklist_print :: "page \<Rightarrow> page \<times> effect" where
  \<comment> \<open>the two earlier versions: a \<open>mailto:\<close> link with the date, then the print dialog\<close>
  "emailChecklist_print p = export_preconditions p MailtoAndPrint"

declare scan_alpha.simps [simp del]

declare decimal.simps [simp del]

text \<open>
  What \<open>loadChecklistState\<close> gets from \<open>JSON.parse\<close>, if it gets that far, and
  whether the stored entry for checkbox \<open>i\<close> is truthy.
\<close>

definition stored_state :: "page \<Rightarrow> jsval option" where
  "stored_state p =
     (case getItem (storage p) of
        Inr (Some saved) \<Rightarrow>
          if is_empty_string saved then None
          else (case JSON_parse saved of Inr state \<Rightarrow> Some state | Inl e \<Rightarrow> None)
      | _ \<Rightarrow> None)"

definition stored_entry_truthy :: "page \<Rightarrow> nat \<Rightarrow> bool" where
  "stored_entry_truthy p i =
     (case stored_state p of
        Some state \<Rightarrow> entry_truthy state i = Inr True
      | None \<Rightarrow> False)"


section \<open>Example pages\<close>

definition open_storage :: localStorage where
  "open_storage = \<lparr>accessible = True, full = False, slot = None\<rparr>"

definition five_items_third_unchecked :: page where
  "five_items_third_unchecked =
     \<lparr>checkboxes = [\<lparr>checked = True, completed = True\<rparr>, \<lparr>checked = True, completed = True\<rparr>,
                    \<lparr>checked = False, completed = False\<rparr>, \<lparr>checked = True, completed = True\<rparr>,
                    \<lparr>checked = True, completed = True\<rparr>],
      dateInput = Some (js ''2024-05-01''),
      signatureCanvas = Some [transparent, (0, 0, 0, 255)],
      storage = open_storage,
      loading = []\<rparr>"

definition one_directional_example :: page where
  "one_directional_example =
     \<lparr>checkboxes = [\<lparr>checked = True, completed = True\<rparr>, \<lparr>checked = False, completed = False\<rparr>,
                    \<lparr>checked = False, completed = False\<rparr>],
      dateInput = Some (js ''2024-05-01''),
      signatureCanvas = Some [transparent, transparent],
      storage = \<lparr>accessible = True, full = False,
                 slot = Some (JSON (Obj [(js ''checkboxes'', Arr [Bool False, Bool True])]))\<rparr>,
      loading = []\<rparr>"

definition signed_page :: page where
  "signed_page =
     \<lparr>checkboxes = [\<lparr>checked = True, completed = True\<rparr>],
      dateInput = Some (js ''2024-05-01''),
      signatureCanvas = Some [transparent, (0, 0, 0, 255)],
      storage = open_storage,
      loading = []\<rparr>"

section \<open>Example pages for loading\<close>


definition fresh_checkbox :: checkbox where
  "fresh_checkbox = \<lparr>checked = False, completed = False\<rparr>"




text \<open>
  A toy encoding of bitmaps, one code unit for each byte, with its decoder, and a
  painting rule under which a pixel painted on a transparent one is kept. They give
  the browser's parameters a concrete value in examples.
\<close>

definition toy_toDataURL :: "bitmap \<Rightarrow> jsstring" where
  "toy_toDataURL c =
     js ''data:,'' @ concat (map (\<lambda>(r, g, b, a). [ucast r, ucast g, ucast b, ucast a]) c)"

fun toy_pixels :: "jsstring \<Rightarrow> bitmap" where
  "toy_pixels (r # g # b # a # rest) = (ucast r, ucast g, ucast b, ucast a) # toy_pixels rest"
| "toy_pixels rest = []"

definition toy_decode :: "jsstring \<Rightarrow> bitmap option" where
  "toy_decode src =
     (if take 6 src = js ''data:,'' then Some (toy_pixels (drop 6 src)) else None)"

definition toy_paint :: "rgba \<Rightarrow> rgba \<Rightarrow> rgba" where
  "toy_paint p q = (if q = transparent then p else if alpha p = 0 then q else p)"

definition reloaded_page :: page where
  "reloaded_page =
     \<lparr>checkboxes = [fresh_checkbox],
      dateInput = Some (js ''2026-11-02''),
      signatureCanvas = Some [transparent, transparent],
      storage = storage (saveChecklistState toy_toDataURL signed_page),
      loading = []\<rparr>"

section \<open>Finding the checklist heading\<close>

text \<open>
  \<open>String.prototype.toLowerCase\<close> and \<open>toUpperCase\<close> are the engine's: they follow
  the Unicode case mappings, which are not reproduced here. The functions that call
  them take them as the parameters \<open>toLowerCase\<close> and \<open>toUpperCase\<close>.
  \<open>ascii_toLowerCase\<close> and \<open>ascii_toUpperCase\<close> are what the two do to a string of
  ASCII characters (the letters \<open>A\<close> to \<open>Z\<close> and \<open>a\<close> to \<open>z\<close> are mapped, nothing else
  changes); they stand for them in the examples, whose documents are ASCII apart from
  the box glyphs, which have no case. \<open>includes_str s t\<close> is \<open>s.includes(t)\<close>.
\<close>

definition lower_case_of :: "(jschar \<times> jschar) list" where
  \<comment> \<open>\<open>A\<close> to \<open>Z\<close> with their lower-case letters\<close>
  "lower_case_of =
       [(0x41, 0x61), (0x42, 0x62), (0x43, 0x63), (0x44, 0x64), (0x45, 0x65), (0x46,
        0x66), (0x47, 0x67), (0x48, 0x68), (0x49, 0x69), (0x4A, 0x6A), (0x4B, 0x6B),
        (0x4C, 0x6C), (0x4D, 0x6D), (0x4E, 0x6E), (0x4F, 0x6F), (0x50, 0x70), (0x51,
        0x71), (0x52, 0x72), (0x53, 0x73), (0x54, 0x74), (0x55, 0x75), (0x56, 0x76),
        (0x57, 0x77), (0x58, 0x78), (0x59, 0x79), (0x5A, 0x7A)]"

definition upper_case_of :: "(jschar \<times> jschar) list" where
  \<comment> \<open>\<open>a\<close> to \<open>z\<close> with their upper-case letters\<close>
  "upper_case_of =
       [(0x61, 0x41), (0x62, 0x42), (0x63, 0x43), (0x64, 0x44), (0x65, 0x45), (0x66,
        0x46), (0x67, 0x47), (0x68, 0x48), (0x69, 0x49), (0x6A, 0x4A), (0x6B, 0x4B),
        (0x6C, 0x4C), (0x6D, 0x4D), (0x6E, 0x4E), (0x6F, 0x4F), (0x70, 0x50), (0x71,
        0x51), (0x72, 0x52), (0x73, 0x53), (0x74, 0x54), (0x75, 0x55), (0x76, 0x56),
        (0x77, 0x57), (0x78, 0x58), (0x79, 0x59), (0x7A, 0x5A)]"

definition ascii_toLowerCase :: "jsstring \<Rightarrow> jsstring" where
  "ascii_toLowerCase s = map (\<lambda>c. case map_of lower_case_of c of Some l \<Rightarrow> l | None \<Rightarrow> c) s"

definition ascii_toUpperCase :: "jsstring \<Rightarrow> jsstring" where
  "ascii_toUpperCase s = map (\<lambda>c. case map_of upper_case_of c of Some u \<Rightarrow> u | None \<Rightarrow> c) s"

fun includes_str :: "jsstring \<Rightarrow> jsstring \<Rightarrow> bool" where
  "includes_str [] t = (t = [])"
| "includes_str (c # s) t = (take (length t) (c # s) = t \<or> includes_str s t)"

definition is_checklist_heading :: "(jsstring \<Rightarrow> jsstring) \<Rightarrow> node \<Rightarrow> bool" where
  "is_checklist_heading toLowerCase h \<longleftrightarrow>
     includes_str (toLowerCase (textContent h)) (js ''checklist'')
     \<and> includes_str (toLowerCase (textContent h)) (js ''signature'')"

text \<open>
  The document is the list of its top nodes. A node is addressed by its path, the
  child indices from the top. \<open>querySelectorAll(tag)\<close> lists the elements of that
  tag name in document order, an element before its descendants, each with its path.
  \<open>findChecklistHeading\<close> is the \<open>headings.forEach\<close> that assigns
  \<open>checklistHeading\<close> at every match, the same code in all three versions.
\<close>

type_synonym path = "nat list"

fun select_node :: "jsstring \<Rightarrow> path \<Rightarrow> node \<Rightarrow> (path \<times> node) list"
  and select_nodes :: "jsstring \<Rightarrow> path \<Rightarrow> nat \<Rightarrow> node list \<Rightarrow> (path \<times> node) list" where
  "select_node t p (TextNode s) = []"
| "select_node t p (Element a cs) =
     (if tagName a = t then [(p, Element a cs)] else []) @ select_nodes t p 0 cs"
| "select_nodes t p i [] = []"
| "select_nodes t p i (n # ns) = select_node t (p @ [i]) n @ select_nodes t p (Suc i) ns"

definition querySelectorAll :: "jsstring \<Rightarrow> node list \<Rightarrow> (path \<times> node) list" where
  "querySelectorAll t doc = select_nodes t [] 0 doc"

definition findChecklistHeading :: "(jsstring \<Rightarrow> jsstring) \<Rightarrow> node list \<Rightarrow> path option" where
  "findChecklistHeading toLowerCase doc =
     fold (\<lambda>(p, h) checklistHeading.
             if is_checklist_heading toLowerCase h then Some p else checklistHeading)
       (querySelectorAll (js ''H2'') doc) None"

section \<open>convertChecklistToInteractive\<close>

text \<open>
  The current version of the builder. \<open>siblings_after\<close> is the chain of
  \<open>nextSibling\<close> from the heading; \<open>collect_region\<close> walks it up to a \<open>TABLE\<close>
  or an \<open>H2\<close>; \<open>walk_step\<close> is the callback that builds the items, and
  \<open>collapse_spaces\<close> is \<open>replace(/\s+/g, ' ')\<close>.
\<close>

fun children :: "node \<Rightarrow> node list" where
  "children (TextNode s) = []"
| "children (Element a cs) = cs"

fun siblings_after :: "path \<Rightarrow> node list \<Rightarrow> node list" where
  "siblings_after [] ns = []"
| "siblings_after [i] ns = drop (Suc i) ns"
| "siblings_after (i # p) ns = (if i < length ns then siblings_after p (children (ns ! i)) else [])"

fun with_children :: "node \<Rightarrow> node list \<Rightarrow> node" where
  "with_children (TextNode s) cs = TextNode s"
| "with_children (Element a _) cs = Element a cs"

fun replace_siblings_after :: "path \<Rightarrow> node list \<Rightarrow> node list \<Rightarrow> node list" where
  "replace_siblings_after [] new ns = ns"
| "replace_siblings_after [i] new ns = take (Suc i) ns @ new"
| "replace_siblings_after (i # p) new ns =
     (if i < length ns
      then ns[i := with_children (ns ! i) (replace_siblings_after p new (children (ns ! i)))]
      else ns)"

text \<open>A path that leads to a node of the document.\<close>

fun valid_path :: "path \<Rightarrow> node list \<Rightarrow> bool" where
  "valid_path [] ns = False"
| "valid_path [i] ns = (i < length ns)"
| "valid_path (i # p) ns =
     (i < length ns \<and> (case ns ! i of TextNode s \<Rightarrow> False | Element a cs \<Rightarrow> valid_path p cs))"

fun is_boundary :: "node \<Rightarrow> bool" where
  "is_boundary (TextNode s) = False"
| "is_boundary (Element a cs) = (tagName a = js ''TABLE'' \<or> tagName a = js ''H2'')"

fun collect_region :: "node list \<Rightarrow> node list \<times> node list" where
  "collect_region [] = ([], [])"
| "collect_region (sibling # rest) =
     (if is_boundary sibling then ([], sibling # rest)
      else (let (nodesToHide, after) = collect_region rest in (sibling # nodesToHide, after)))"

fun isCheckbox :: "(jsstring \<Rightarrow> jsstring) \<Rightarrow> node \<Rightarrow> bool" where
  "isCheckbox toUpperCase (TextNode s) = False"
| "isCheckbox toUpperCase (Element a cs) =
     (let tagName = toUpperCase (tagName a)
      in tagName = js ''MJX-CONTAINER'' \<or> tagName = js ''MATH'')"

fun item_text :: "node \<Rightarrow> jsstring" where
  "item_text (TextNode s) = s"
| "item_text (Element a cs) =
     (if tagName a \<noteq> js ''DIV'' then textContent (Element a cs) else [])"

fun walk_step ::
  "(jsstring \<Rightarrow> jsstring) \<Rightarrow> node \<Rightarrow> jsstring list \<times> jsstring \<times> bool
   \<Rightarrow> jsstring list \<times> jsstring \<times> bool" where
  "walk_step toUpperCase node (items, currentItem, foundFirstCheckbox) =
     (if isCheckbox toUpperCase node then
        ((if foundFirstCheckbox \<and> length (trim currentItem) > 15
          then items @ [trim currentItem] else items),
         [], True)
      else if foundFirstCheckbox then (items, currentItem @ item_text node, foundFirstCheckbox)
      else (items, currentItem, foundFirstCheckbox))"

function collapse_spaces :: "jsstring \<Rightarrow> jsstring" where
  "collapse_spaces [] = []"
| "collapse_spaces (c # cs) =
     (if isWhiteSpace c then 0x20 # collapse_spaces (dropWhile isWhiteSpace cs)
      else c # collapse_spaces cs)"
  by pat_completeness auto
termination
  by (relation "measure length") (auto simp: length_dropWhile_le less_Suc_eq_le)

definition extract_items :: "(jsstring \<Rightarrow> jsstring) \<Rightarrow> node list \<Rightarrow> jsstring list" where
  "extract_items toUpperCase nodesToHide =
     (let (items, currentItem, foundFirstCheckbox) =
            fold (walk_step toUpperCase) nodesToHide ([], [], False);
          items = (if length (trim currentItem) > 15 then items @ [trim currentItem] else items)
      in map (\<lambda>item. trim (collapse_spaces item)) items)"

text \<open>
  The container the builder creates. \<open>label.innerHTML = itemText\<close> parses the item
  text as HTML; the parser is the browser's and is the parameter \<open>parseHTML\<close>.
  \<open>today\<close> is \<open>new Date().toISOString().split('T')[0]\<close>; it is assigned to the
  \<open>value\<close> of the date field, which sanitizes it.
\<close>

definition el ::
  "string \<Rightarrow> jsstring \<Rightarrow> jsstring \<Rightarrow> (string \<times> jsstring) list \<Rightarrow> (string \<times> string) list
   \<Rightarrow> node list \<Rightarrow> node" where
  \<comment> \<open>\<open>document.createElement(t)\<close> with id, class, properties, handlers and children\<close>
  "el t i c ps ls cs =
     Element \<lparr>tagName = js t, ident = i, className = c, display = [], props = ps,
              listeners = ls\<rparr> cs"

definition checklist_item :: "(jsstring \<Rightarrow> node list) \<Rightarrow> nat \<Rightarrow> jsstring \<Rightarrow> node" where
  \<comment> \<open>the body of \<open>items.forEach(function(itemText, index) ...)\<close>\<close>
  "checklist_item parseHTML index itemText =
     (let checkbox = el ''INPUT'' (js ''checklist-item-'' @ decimal index) []
                       [(''type'', js ''checkbox''),
                        (''name'', js ''checklist-item-'' @ decimal index)]
                       [(''change'', ''toggle completed, saveChecklistState'')] [];
          label = el ''LABEL'' [] []
                       [(''htmlFor'', js ''checklist-item-'' @ decimal index)] []
                       (parseHTML itemText)
      in el ''DIV'' [] (js ''checklist-item'') [] [] [checkbox, label])"

definition signatureSection :: "jsstring \<Rightarrow> node" where
  "signatureSection today =
     (let signatureLabel = el ''LABEL'' [] [] [] []
                             [TextNode (js ''Sign below (draw your signature):'')];
          canvas = el ''CANVAS'' (js ''signature-canvas'') (js ''signature-canvas'')
                     [(''width'', js ''400''), (''height'', js ''150'')] [] [];
          clearBtn = el ''BUTTON'' [] (js ''clear-signature-btn'') [(''type'', js ''button'')]
                       [(''click'', ''clearSignature'')] [TextNode (js ''Clear Signature'')];
          canvasContainer = el ''DIV'' [] (js ''signature-canvas-container'') [] []
                              [signatureLabel, canvas, el ''BR'' [] [] [] [] [], clearBtn];
          dateInput = el ''INPUT'' (js ''signature-date'') []
                        [(''type'', js ''date''), (''name'', js ''signature-date''),
                         (''value'', sanitize_date today)]
                        [(''change'', ''saveChecklistState'')] [];
          dateField = el ''DIV'' [] (js ''signature-field'') [] []
                        [el ''LABEL'' [] [] [(''htmlFor'', js ''signature-date'')] []
                           [TextNode (js ''Date:'')],
                         dateInput];
          emailBtn = el ''BUTTON'' [] (js ''email-checklist-btn'') [(''type'', js ''button'')]
                       [(''click'', ''emailChecklist'')]
                       [TextNode
                          (js ''Email Completed Checklist to contextualdynamics@gmail.com'')]
      in el ''DIV'' [] (js ''signature-section'') [] []
           [el ''H3'' [] [] [] [] [TextNode (js ''Signature'')],
            canvasContainer, dateField, emailBtn])"

definition interactive_checklist :: "(jsstring \<Rightarrow> node list) \<Rightarrow> jsstring \<Rightarrow> jsstring list \<Rightarrow> node" where
  "interactive_checklist parseHTML today items =
     (let intro = el ''P'' [] [] [] []
            [TextNode
               (js ''By signing below, I certify that I have completed the following tasks:'')]
      in el ''DIV'' (js ''interactive-checklist'') (js ''interactive-checklist'') [] []
           (intro # map (\<lambda>(index, itemText). checklist_item parseHTML index itemText)
                      (enumerate 0 items)
            @ [signatureSection today]))"

text \<open>
  Hiding sets \<open>style.display\<close> on an element and wraps a text node that is not blank
  in a hidden \<open>span\<close>. \<open>convert_region\<close> is the builder from the heading's next
  sibling on: it gives the nodes that follow the heading afterwards, the new container
  first, or nothing when no item was found. The calls that end the function,
  \<open>initSignatureCanvas()\<close> and \<open>loadChecklistState()\<close>, set the state of the new
  controls and are the functions on pages above; they add and remove no node.
\<close>

fun hide_node :: "node \<Rightarrow> node" where
  "hide_node (Element a cs) = Element (a\<lparr>display := js ''none''\<rparr>) cs"
| "hide_node (TextNode s) =
     (if trim s \<noteq> [] then Element ((plain ''SPAN'')\<lparr>display := js ''none''\<rparr>) [TextNode s]
      else TextNode s)"

fun hide_signatureTable :: "node list \<Rightarrow> node list" where
  "hide_signatureTable (Element a cs # rest) =
     (if tagName a = js ''TABLE'' then Element (a\<lparr>display := js ''none''\<rparr>) cs # rest
      else Element a cs # rest)"
| "hide_signatureTable rest = rest"

definition convert_region ::
  "(jsstring \<Rightarrow> jsstring) \<Rightarrow> (jsstring \<Rightarrow> node list) \<Rightarrow> jsstring \<Rightarrow> node list
   \<Rightarrow> node list option" where
  "convert_region toUpperCase parseHTML today siblings =
     (let (nodesToHide, after) = collect_region siblings;
          items = extract_items toUpperCase nodesToHide
      in if items = [] then None
         else Some (interactive_checklist parseHTML today items
                    # map hide_node nodesToHide @ hide_signatureTable after))"

definition convertChecklistToInteractive ::
  "(jsstring \<Rightarrow> jsstring) \<Rightarrow> (jsstring \<Rightarrow> jsstring) \<Rightarrow> (jsstring \<Rightarrow> node list) \<Rightarrow> jsstring
   \<Rightarrow> node list \<Rightarrow> node list" where
  "convertChecklistToInteractive toLowerCase toUpperCase parseHTML today doc =
     (case findChecklistHeading toLowerCase doc of
        None \<Rightarrow> doc
      | Some checklistHeading \<Rightarrow>
          (case convert_region toUpperCase parseHTML today
                  (siblings_after checklistHeading doc) of
             None \<Rightarrow> doc
           | Some siblings \<Rightarrow> replace_siblings_after checklistHeading siblings doc))"

section \<open>Example documents\<close>




definition text_only :: "jsstring \<Rightarrow> node list" where
  "text_only s = [TextNode s]"

definition two_headings_document :: "node list" where
  "two_headings_document =
     [Element (plain ''H2'') [TextNode (js ''Checklist and signature page'')],
      Element (plain ''DIV'')
        [Element (plain ''H2'') [TextNode (js ''Introduction'')],
         Element (plain ''H2'') [TextNode (js ''SIGNATURE and Checklist'')]],
      Element (plain ''H2'') [TextNode (js ''Appendix'')]]"

definition plain_document :: "node list" where
  "plain_document =
     [Element (plain ''H2'') [TextNode (js ''Checklist'')],
      Element (plain ''MJX-CONTAINER'') [TextNode [0x25A1]],
      TextNode (js '' Read the lab manual from beginning to end ''),
      Element (plain ''H2'') [TextNode (js ''Signature'')]]"



section \<open>Item extraction in the two earlier versions\<close>

text \<open>
  The first version splits the \<open>innerHTML\<close> of the checklist paragraph at every
  U+2610, U+2611, U+2612 or U+25A1 and keeps parts longer than 10; the second joins
  the text of the nodes after the heading, gives up unless it holds U+25A1 or U+2610,
  splits at these two and keeps parts longer than 15. Both skip the part before the
  first delimiter and strip white space and commas at both ends.
\<close>

definition is_checkbox_glyph :: "jschar \<Rightarrow> bool" where
  "is_checkbox_glyph c \<longleftrightarrow> c \<in> set [0x2610, 0x2611, 0x2612, 0x25A1]"

definition is_box_or_square :: "jschar \<Rightarrow> bool" where
  "is_box_or_square c \<longleftrightarrow> c \<in> set [0x25A1, 0x2610]"

definition strip_punctuation :: "jsstring \<Rightarrow> jsstring" where
  "strip_punctuation s =
     rev (dropWhile (\<lambda>c. isWhiteSpace c \<or> c = 0x2C)
            (rev (dropWhile (\<lambda>c. isWhiteSpace c \<or> c = 0x2C) s)))"

definition items_from_parts :: "nat \<Rightarrow> jsstring list \<Rightarrow> jsstring list" where
  "items_from_parts minimum parts =
     concat (map (\<lambda>(index, part).
                    if index = 0 then []
                    else (let cleanText = strip_punctuation (trim part)
                          in if length cleanText > minimum then [cleanText] else []))
                 (enumerate 0 parts))"

definition extract_items_innerHTML :: "jsstring \<Rightarrow> jsstring list" where
  "extract_items_innerHTML text = items_from_parts 10 (split_on is_checkbox_glyph text)"

definition extract_items_fullText :: "jsstring \<Rightarrow> jsstring list" where
  "extract_items_fullText fullText =
     (if \<not> includes_str fullText [0x25A1] \<and> \<not> includes_str fullText [0x2610] then []
      else items_from_parts 15 (split_on is_box_or_square fullText))"

text \<open>
  The rest of the second version: the nodes after the heading are collected up to a
  \<open>TABLE\<close> or an element whose text holds \<open>Signature\<close> and \<open>Date\<close> but not
  \<open>tasks\<close>, their text is joined, and the container goes directly after the heading.
\<close>

fun is_signature_block :: "node \<Rightarrow> bool" where
  "is_signature_block (TextNode s) = False"
| "is_signature_block (Element a cs) =
     (tagName a = js ''TABLE''
      \<or> (textContent (Element a cs) \<noteq> []
         \<and> includes_str (textContent (Element a cs)) (js ''Signature'')
         \<and> includes_str (textContent (Element a cs)) (js ''Date'')
         \<and> \<not> includes_str (textContent (Element a cs)) (js ''tasks'')))"

fun collect_fullText :: "node list \<Rightarrow> node list \<times> node list" where
  "collect_fullText [] = ([], [])"
| "collect_fullText (node # rest) =
     (if is_signature_block node then ([], node # rest)
      else (let (nodesToHide, after) = collect_fullText rest in (node # nodesToHide, after)))"

fun hide_first :: "node list \<Rightarrow> node list" where
  "hide_first (Element a cs # rest) = Element (a\<lparr>display := js ''none''\<rparr>) cs # rest"
| "hide_first rest = rest"

definition convert_region_fullText ::
  "(jsstring \<Rightarrow> node list) \<Rightarrow> jsstring \<Rightarrow> node list \<Rightarrow> node list option" where
  "convert_region_fullText parseHTML today siblings =
     (let (nodesToHide, after) = collect_fullText siblings;
          fullText = concat (map textContent nodesToHide);
          items = extract_items_fullText fullText
      in if items = [] then None
         else Some (interactive_checklist parseHTML today items
                    # map hide_node nodesToHide @ hide_first after))"

definition convertChecklistToInteractive_fullText ::
  "(jsstring \<Rightarrow> jsstring) \<Rightarrow> (jsstring \<Rightarrow> node list) \<Rightarrow> jsstring \<Rightarrow> node list
   \<Rightarrow> node list" where
  "convertChecklistToInteractive_fullText toLowerCase parseHTML today doc =
     (case findChecklistHeading toLowerCase doc of
        None \<Rightarrow> doc
      | Some checklistHeading \<Rightarrow>
          (case convert_region_fullText parseHTML today (siblings_after checklistHeading doc) of
             None \<Rightarrow> doc
           | Some siblings \<Rightarrow> replace_siblings_after checklistHeading siblings doc))"

text \<open>
  The rest of the first version: \<open>nextElementSibling\<close> is followed from the heading
  to the first element whose text holds U+2610 or U+25A1, the checklist paragraph; its
  \<open>innerHTML\<close> (the browser's serialisation, a parameter) is split; the container
  goes directly before the paragraph, which is hidden together with the first later
  element that is a \<open>TABLE\<close> or holds \<open>Signature\<close> and \<open>Date\<close>.
\<close>

fun is_checklistParagraph :: "node \<Rightarrow> bool" where
  "is_checklistParagraph (TextNode s) = False"
| "is_checklistParagraph (Element a cs) =
     (textContent (Element a cs) \<noteq> []
      \<and> (includes_str (textContent (Element a cs)) [0x2610]
         \<or> includes_str (textContent (Element a cs)) [0x25A1]))"

fun is_signatureTable :: "node \<Rightarrow> bool" where
  "is_signatureTable (TextNode s) = False"
| "is_signatureTable (Element a cs) =
     (tagName a = js ''TABLE''
      \<or> (textContent (Element a cs) \<noteq> []
         \<and> includes_str (textContent (Element a cs)) (js ''Signature'')
         \<and> includes_str (textContent (Element a cs)) (js ''Date'')))"

fun hide_first_where :: "(node \<Rightarrow> bool) \<Rightarrow> node list \<Rightarrow> node list" where
  "hide_first_where P [] = []"
| "hide_first_where P (n # ns) = (if P n then hide_first (n # ns) else n # hide_first_where P ns)"

definition convert_region_innerHTML ::
  "(node \<Rightarrow> jsstring) \<Rightarrow> (jsstring \<Rightarrow> node list) \<Rightarrow> jsstring \<Rightarrow> node list \<Rightarrow> node list option" where
  "convert_region_innerHTML innerHTML parseHTML today siblings =
     (case dropWhile (\<lambda>sibling. \<not> is_checklistParagraph sibling) siblings of
        [] \<Rightarrow> None
      | checklistParagraph # later \<Rightarrow>
          (let items = extract_items_innerHTML (innerHTML checklistParagraph)
           in if items = [] then None
              else Some (takeWhile (\<lambda>sibling. \<not> is_checklistParagraph sibling) siblings
                         @ interactive_checklist parseHTML today items
                         # hide_first [checklistParagraph]
                         @ hide_first_where is_signatureTable later)))"

definition convertChecklistToInteractive_innerHTML ::
  "(jsstring \<Rightarrow> jsstring) \<Rightarrow> (node \<Rightarrow> jsstring) \<Rightarrow> (jsstring \<Rightarrow> node list) \<Rightarrow> jsstring
   \<Rightarrow> node list \<Rightarrow> node list" where
  "convertChecklistToInteractive_innerHTML toLowerCase innerHTML parseHTML today doc =
     (case findChecklistHeading toLowerCase doc of
        None \<Rightarrow> doc
      | Some checklistHeading \<Rightarrow>
          (case convert_region_innerHTML innerHTML parseHTML today
                  (siblings_after checklistHeading doc) of
             None \<Rightarrow> doc
           | Some siblings \<Rightarrow> replace_siblings_after checklistHeading siblings doc))"


text \<open>
  What the node walk has collected when it ends: the items, and the last one if it is
  long enough.
\<close>

definition finish_items :: "jsstring list \<times> jsstring \<times> bool \<Rightarrow> jsstring list" where
  "finish_items st =
     (case st of (items, currentItem, found) \<Rightarrow>
        if length (trim currentItem) > 15 then items @ [trim currentItem] else items)"

definition two_glyph_text :: jsstring where
  "two_glyph_text =
     0x2610 # js '' Read the handbook now, '' @ 0x2611 # js '' Meet with your advisor''"

section \<open>Nodes of the document by path\<close>

text \<open>
  \<open>node_at p doc\<close> is the node the path \<open>p\<close> leads to. \<open>replaces_text n\<close> says that
  \<open>fixEnumerationNumbering\<close> assigns to the \<open>textContent\<close> of \<open>n\<close>, which removes what
  was inside \<open>n\<close> from the document; \<open>stays p doc\<close> says that the path leads to a node
  and that this happens to no element above that node, so that the node is still in
  the document when \<open>fixEnumerationNumbering\<close> has run.
\<close>

fun node_at :: "path \<Rightarrow> node list \<Rightarrow> node option" where
  "node_at [] ns = None"
| "node_at [i] ns = (if i < length ns then Some (ns ! i) else None)"
| "node_at (i # p) ns = (if i < length ns then node_at p (children (ns ! i)) else None)"

fun replaces_text :: "node \<Rightarrow> bool" where
  "replaces_text (TextNode s) = False"
| "replaces_text (Element a cs) =
     (tagName a = js ''DT'' \<and> fix_dt (concat (map textContent cs)) \<noteq> None)"

fun stays :: "path \<Rightarrow> node list \<Rightarrow> bool" where
  "stays [] ns = False"
| "stays [i] ns = (i < length ns)"
| "stays (i # p) ns =
     (i < length ns \<and> \<not> replaces_text (ns ! i) \<and> stays p (children (ns ! i)))"

definition enumeration_document :: "node list" where
  "enumeration_document =
     [Element (plain ''BODY'')
        [Element (plain ''H1'') [TextNode (js ''Lab manual'')],
         Element (plain ''DL'')
           [Element (plain ''DT'') [TextNode (js '' 1.2.3.1. '')],
            Element (plain ''DD'') [TextNode (js ''Overview'')],
            Element (plain ''DT'') [TextNode (js ''1.2'')]]]]"

section \<open>Properties of the matcher\<close>

lemma nullable_lang: "nullable r \<longleftrightarrow> [] \<in> lang r"
  by (induction r) (auto intro: star.star_nil)

lemma star_cons_iff:
  "c # w \<in> star A \<longleftrightarrow> (\<exists>u v. w = u @ v \<and> c # u \<in> A \<and> v \<in> star A)"
proof
  assume "c # w \<in> star A"
  then show "\<exists>u v. w = u @ v \<and> c # u \<in> A \<and> v \<in> star A"
  proof (induction "c # w" arbitrary: w rule: star.induct)
    case (star_app u v)
    show ?case
    proof (cases u)
      case Nil
      with star_app show ?thesis by simp
    next
      case (Cons d u')
      with star_app show ?thesis by auto
    qed
  qed
next
  assume "\<exists>u v. w = u @ v \<and> c # u \<in> A \<and> v \<in> star A"
  then obtain u v where "w = u @ v" "c # u \<in> A" "v \<in> star A" by blast
  then show "c # w \<in> star A"
    using star.star_app [of "c # u" A v] by simp
qed

lemma lang_Seq_iff:
  "w \<in> lang (Seq r s) \<longleftrightarrow> (\<exists>u v. w = u @ v \<and> u \<in> lang r \<and> v \<in> lang s)"
  by auto

lemma lang_deriv: "w \<in> lang (deriv c r) \<longleftrightarrow> c # w \<in> lang r"
proof (induction r arbitrary: w)
  case (Seq r s)
  show ?case
  proof
    assume "w \<in> lang (deriv c (Seq r s))"
    then consider (left) u v where "w = u @ v" "c # u \<in> lang r" "v \<in> lang s"
      | (right) "nullable r" "c # w \<in> lang s"
      using Seq by (auto split: if_splits)
    then show "c # w \<in> lang (Seq r s)"
    proof cases
      case left
      then have "c # w = (c # u) @ v" by simp
      with left show ?thesis unfolding lang_Seq_iff by blast
    next
      case right
      then have "[] \<in> lang r" by (simp add: nullable_lang)
      with right have "\<exists>u v. c # w = u @ v \<and> u \<in> lang r \<and> v \<in> lang s"
        by (intro exI [of _ "[]"] exI [of _ "c # w"]) simp
      then show ?thesis by simp
    qed
  next
    assume "c # w \<in> lang (Seq r s)"
    then obtain u v where uv: "c # w = u @ v" "u \<in> lang r" "v \<in> lang s" by auto
    show "w \<in> lang (deriv c (Seq r s))"
    proof (cases u)
      case Nil
      with uv have "nullable r" "c # w \<in> lang s" by (simp_all add: nullable_lang)
      with Seq show ?thesis by simp
    next
      case (Cons d u')
      with uv have "w = u' @ v" "c # u' \<in> lang r" by simp_all
      with uv Seq have "w \<in> lang (Seq (deriv c r) s)" by auto
      then show ?thesis by simp
    qed
  qed
next
  case (Star r)
  show ?case
    by (simp add: star_cons_iff Star)
qed auto

lemma test_anchored_lang: "test_anchored r w \<longleftrightarrow> w \<in> lang r"
  by (induction w arbitrary: r) (simp_all add: nullable_lang lang_deriv)

lemma lang_Sym_Seq_iff:
  "w \<in> lang (Seq (Sym p) s) \<longleftrightarrow> (\<exists>c v. w = c # v \<and> p c \<and> v \<in> lang s)"
proof
  assume "w \<in> lang (Seq (Sym p) s)"
  then obtain u v where "w = u @ v" "u \<in> lang (Sym p)" "v \<in> lang s"
    unfolding lang_Seq_iff by blast
  then show "\<exists>c v. w = c # v \<and> p c \<and> v \<in> lang s" by auto
next
  assume "\<exists>c v. w = c # v \<and> p c \<and> v \<in> lang s"
  then obtain c v where "w = [c] @ v" "[c] \<in> lang (Sym p)" "v \<in> lang s" by auto
  then show "w \<in> lang (Seq (Sym p) s)" unfolding lang_Seq_iff by blast
qed

lemma star_Sym: "w \<in> star {[c] | c. p c} \<longleftrightarrow> list_all p w"
proof
  show "w \<in> star {[c] | c. p c} \<Longrightarrow> list_all p w"
    by (induction rule: star.induct) auto
next
  show "list_all p w \<Longrightarrow> w \<in> star {[c] | c. p c}"
  proof (induction w)
    case Nil
    show ?case by (rule star.star_nil)
  next
    case (Cons c w)
    then have "[c] \<in> {[c] | c. p c}" "w \<in> star {[c] | c. p c}" by simp_all
    then have "[c] @ w \<in> star {[c] | c. p c}" by (rule star.star_app)
    then show ?case by simp
  qed
qed

lemma lang_Plus_Sym: "w \<in> lang (Plus (Sym p)) \<longleftrightarrow> w \<noteq> [] \<and> list_all p w"
  unfolding Plus_def lang_Sym_Seq_iff by (cases w) (simp_all add: star_Sym)


section \<open>The enumeration pattern\<close>

lemma join_dots_Cons: "join_dots (c # cs) = c @ concat (map ((#) dot) cs)"
  by (induction cs arbitrary: c) simp_all

lemma lang_digits: "w \<in> lang (Plus (Sym is_digit)) \<longleftrightarrow> integer_component w"
  by (simp add: lang_Plus_Sym integer_component_def)

lemma lang_component:
  "w \<in> lang (Seq (Sym (\<lambda>c. c = dot)) (Plus (Sym is_digit))) \<longleftrightarrow>
     (\<exists>c. integer_component c \<and> w = dot # c)"
proof -
  have "w \<in> lang (Seq (Sym (\<lambda>c. c = dot)) (Plus (Sym is_digit))) \<longleftrightarrow>
        (\<exists>v. w = dot # v \<and> v \<in> lang (Plus (Sym is_digit)))"
    unfolding lang_Sym_Seq_iff by auto
  then show ?thesis by (auto simp: lang_digits)
qed

lemma star_components:
  "w \<in> star (lang (Seq (Sym (\<lambda>c. c = dot)) (Plus (Sym is_digit)))) \<longleftrightarrow>
     (\<exists>cs. list_all integer_component cs \<and> w = concat (map ((#) dot) cs))"
  (is "w \<in> star ?D \<longleftrightarrow> ?R w")
proof
  show "w \<in> star ?D \<Longrightarrow> ?R w"
  proof (induction rule: star.induct)
    case star_nil
    have "list_all integer_component [] \<and> [] = concat (map ((#) dot) [])" by simp
    then show ?case by blast
  next
    case (star_app u v)
    from star_app.hyps(1) obtain c where c: "integer_component c" "u = dot # c"
      unfolding lang_component by blast
    from star_app.IH obtain cs
      where cs: "list_all integer_component cs" "v = concat (map ((#) dot) cs)"
      by blast
    from c cs
    have "list_all integer_component (c # cs) \<and> u @ v = concat (map ((#) dot) (c # cs))"
      by simp
    then show ?case by blast
  qed
next
  assume "?R w"
  then obtain cs where "list_all integer_component cs" "w = concat (map ((#) dot) cs)"
    by blast
  then show "w \<in> star ?D"
  proof (induction cs arbitrary: w)
    case Nil
    then show ?case by (simp add: star.star_nil)
  next
    case (Cons c cs)
    have "dot # c \<in> ?D" using Cons.prems(1) unfolding lang_component by simp
    moreover have "concat (map ((#) dot) cs) \<in> star ?D" using Cons by simp
    ultimately have "(dot # c) @ concat (map ((#) dot) cs) \<in> star ?D"
      by (rule star.star_app)
    with Cons.prems(2) show ?case by simp
  qed
qed

lemma star_dots: "w \<in> star (lang (Sym (\<lambda>c. c = dot))) \<longleftrightarrow> (\<exists>k. w = replicate k dot)"
proof -
  have "w \<in> star (lang (Sym (\<lambda>c. c = dot))) \<longleftrightarrow> list_all (\<lambda>c. c = dot) w"
    using star_Sym [of w "\<lambda>c. c = dot"] by simp
  also have "\<dots> \<longleftrightarrow> (\<exists>k. w = replicate k dot)"
  proof
    assume "list_all (\<lambda>c. c = dot) w"
    then have "w = replicate (length w) dot"
      by (induction w) simp_all
    then show "\<exists>k. w = replicate k dot" ..
  next
    assume "\<exists>k. w = replicate k dot"
    then show "list_all (\<lambda>c. c = dot) w" by (auto simp: list_all_iff)
  qed
  finally show ?thesis .
qed

lemma lang_enumeration_re:
  "w \<in> lang enumeration_re \<longleftrightarrow>
     (\<exists>comps k. enumeration_components comps \<and> w = join_dots comps @ replicate k dot)"
proof
  let ?C = "Seq (Sym (\<lambda>c. c = dot)) (Plus (Sym is_digit))"
  assume "w \<in> lang enumeration_re"
  then obtain c0 r0 where w0: "w = c0 @ r0"
    and c0: "c0 \<in> lang (Plus (Sym is_digit))"
    and r0: "r0 \<in> lang (Seq (AtLeast2 ?C) (Star (Sym (\<lambda>c. c = dot))))"
    unfolding enumeration_re_def lang_Seq_iff [of w] by blast
  from r0 obtain m ds where r0': "r0 = m @ ds"
    and m: "m \<in> lang (AtLeast2 ?C)"
    and ds: "ds \<in> star (lang (Sym (\<lambda>c. c = dot)))"
    unfolding lang_Seq_iff [of r0] lang.simps(6) by blast
  from m obtain x1 m1 where m': "m = x1 @ m1"
    and x1: "x1 \<in> lang ?C"
    and m1: "m1 \<in> lang (Seq ?C (Star ?C))"
    unfolding AtLeast2_def lang_Seq_iff [of m] by blast
  from m1 obtain x2 xs where m1': "m1 = x2 @ xs"
    and x2: "x2 \<in> lang ?C"
    and xs: "xs \<in> star (lang ?C)"
    unfolding lang_Seq_iff [of m1] lang.simps(6) by blast
  have w: "w = c0 @ x1 @ x2 @ xs @ ds"
    using w0 r0' m' m1' by simp
  from x1 obtain c1 where c1: "integer_component c1" "x1 = dot # c1"
    unfolding lang_component by blast
  from x2 obtain c2 where c2: "integer_component c2" "x2 = dot # c2"
    unfolding lang_component by blast
  from xs obtain cs where cs: "list_all integer_component cs" "xs = concat (map ((#) dot) cs)"
    unfolding star_components by blast
  from ds obtain k where k: "ds = replicate k dot" unfolding star_dots by blast
  let ?comps = "c0 # c1 # c2 # cs"
  have "enumeration_components ?comps"
    using c0 c1 c2 cs by (simp add: enumeration_components_def lang_digits)
  moreover have "w = join_dots ?comps @ replicate k dot"
    using w c1 c2 cs k by (simp add: join_dots_Cons)
  ultimately
  show "\<exists>comps k. enumeration_components comps \<and> w = join_dots comps @ replicate k dot"
    by blast
next
  let ?C = "Seq (Sym (\<lambda>c. c = dot)) (Plus (Sym is_digit))"
  assume "\<exists>comps k. enumeration_components comps \<and> w = join_dots comps @ replicate k dot"
  then obtain comps k where ec: "enumeration_components comps"
    and w: "w = join_dots comps @ replicate k dot" by blast
  from ec obtain c0 c1 c2 cs where comps: "comps = c0 # c1 # c2 # cs"
    by (cases comps; cases "tl comps"; cases "tl (tl comps)")
       (auto simp: enumeration_components_def)
  have c0: "c0 \<in> lang (Plus (Sym is_digit))"
    and c1: "dot # c1 \<in> lang ?C" and c2: "dot # c2 \<in> lang ?C"
    and cs: "concat (map ((#) dot) cs) \<in> star (lang ?C)"
    and ds: "replicate k dot \<in> star (lang (Sym (\<lambda>c. c = dot)))"
    using ec unfolding comps lang_digits lang_component star_components star_dots
    by (auto simp: enumeration_components_def)
  let ?t = "concat (map ((#) dot) cs)"
  have w': "w = c0 @ ((dot # c1) @ (dot # c2) @ ?t) @ replicate k dot"
    using w comps by (simp add: join_dots_Cons)
  have "?t \<in> lang (Star ?C)"
    using cs by simp
  with c2 have "(dot # c2) @ ?t \<in> lang (Seq ?C (Star ?C))"
    unfolding lang_Seq_iff [of "(dot # c2) @ ?t"] by blast
  with c1 have "(dot # c1) @ (dot # c2) @ ?t \<in> lang (AtLeast2 ?C)"
    unfolding AtLeast2_def lang_Seq_iff [of "(dot # c1) @ (dot # c2) @ ?t"]
    by blast
  moreover have "replicate k dot \<in> lang (Star (Sym (\<lambda>c. c = dot)))"
    using ds by simp
  ultimately have "((dot # c1) @ (dot # c2) @ ?t) @ replicate k dot
      \<in> lang (Seq (AtLeast2 ?C) (Star (Sym (\<lambda>c. c = dot))))"
    unfolding lang_Seq_iff [of "((dot # c1) @ (dot # c2) @ ?t) @ replicate k dot"]
    by blast
  with c0 have "c0 @ ((dot # c1) @ (dot # c2) @ ?t) @ replicate k dot \<in> lang enumeration_re"
    unfolding enumeration_re_def
      lang_Seq_iff [of "c0 @ ((dot # c1) @ (dot # c2) @ ?t) @ replicate k dot"]
    by blast
  then show "w \<in> lang enumeration_re"
    by (simp only: w')
qed


section \<open>fixEnumerationNumbering keeps the last component\<close>

lemma digit_not_dot: "is_digit c \<Longrightarrow> c \<noteq> dot"
  by (auto simp: is_digit_def dot_def)

lemma split_on_free: "\<forall>c\<in>set s. \<not> D c \<Longrightarrow> split_on D s = [s]"
  by (induction s) simp_all

lemma split_on_append:
  "\<forall>c\<in>set s. \<not> D c \<Longrightarrow> D d \<Longrightarrow> split_on D (s @ d # rest) = s # split_on D rest"
  by (induction s) simp_all

lemma split_on_join_dots:
  "comps \<noteq> [] \<Longrightarrow> \<forall>c\<in>set comps. dot \<notin> set c \<Longrightarrow>
     split_on (\<lambda>c. c = dot) (join_dots comps) = comps"
proof (induction comps rule: join_dots.induct)
  case 1
  then show ?case by simp
next
  case (2 c)
  have "\<forall>x\<in>set c. \<not> x = dot" using 2 by auto
  then have "split_on (\<lambda>c. c = dot) c = [c]" by (rule split_on_free)
  then show ?case by simp
next
  case (3 c d cs)
  have "\<forall>x\<in>set c. \<not> x = dot" using 3(3) by auto
  then have "split_on (\<lambda>c. c = dot) (c @ dot # join_dots (d # cs))
        = c # split_on (\<lambda>c. c = dot) (join_dots (d # cs))"
    by (rule split_on_append) simp
  with 3 show ?case by simp
qed

lemma strip_trailing_dots_append:
  "s \<noteq> [] \<Longrightarrow> last s \<noteq> dot \<Longrightarrow> strip_trailing_dots (s @ replicate k dot) = s"
proof -
  assume s: "s \<noteq> []" "last s \<noteq> dot"
  then have "hd (rev s) \<noteq> dot" "rev s \<noteq> []" by (simp_all add: hd_rev)
  then obtain x xs where r: "rev s = x # xs" "x \<noteq> dot"
    by (cases "rev s") simp_all
  have "dropWhile (\<lambda>c. c = dot) (replicate k dot @ rev s) = rev s"
    unfolding r using r(2) by (induction k) simp_all
  then have "rev (dropWhile (\<lambda>c. c = dot) (rev (s @ replicate k dot))) = rev (rev s)"
    by simp
  then show ?thesis by (simp add: strip_trailing_dots_def)
qed

lemma integer_component_no_dot: "integer_component c \<Longrightarrow> dot \<notin> set c"
  by (auto simp: integer_component_def list_all_iff dest: digit_not_dot)

lemma join_dots_last:
  "comps \<noteq> [] \<Longrightarrow> list_all integer_component comps \<Longrightarrow>
     join_dots comps \<noteq> [] \<and> last (join_dots comps) \<noteq> dot"
proof (induction comps rule: join_dots.induct)
  case 1
  then show ?case by simp
next
  case (2 c)
  then have "c \<noteq> []" "is_digit (last c)"
    by (auto simp: integer_component_def list_all_iff)
  then show ?case by (simp add: digit_not_dot)
next
  case (3 c d cs)
  then show ?case by simp
qed

lemma fix_dt_enumeration:
  assumes "enumeration_components comps" and "trim t = join_dots comps @ replicate k dot"
  shows "fix_dt t = Some (last comps @ js ''.'')"
proof -
  from assms(1) have ne: "comps \<noteq> []" and ic: "list_all integer_component comps"
    by (auto simp: enumeration_components_def)
  have "trim t \<in> lang enumeration_re"
    unfolding lang_enumeration_re using assms by blast
  then have m: "test_anchored enumeration_re (trim t)"
    by (simp only: test_anchored_lang)
  have "strip_trailing_dots (trim t) = join_dots comps"
    using join_dots_last [OF ne ic] by (simp add: assms(2) strip_trailing_dots_append)
  moreover have "split_on (\<lambda>c. c = dot) (join_dots comps) = comps"
    using ne ic by (intro split_on_join_dots) (auto simp: list_all_iff integer_component_no_dot)
  ultimately show ?thesis using m by (simp add: fix_dt_def Let_def)
qed

lemma fix_dt_other:
  assumes "\<nexists>comps k. enumeration_components comps \<and> trim t = join_dots comps @ replicate k dot"
  shows "fix_dt t = None"
proof -
  have "trim t \<notin> lang enumeration_re"
    unfolding lang_enumeration_re using assms by blast
  then have "\<not> test_anchored enumeration_re (trim t)"
    by (simp only: test_anchored_lang not_False_eq_True)
  then show ?thesis by (simp add: fix_dt_def)
qed

lemma fixEnumerationNumbering_dt_free: "dt_free n \<Longrightarrow> fixEnumerationNumbering n = n"
proof (induction n)
  case (TextNode s)
  show ?case by simp
next
  case (Element a cs)
  then have "map fixEnumerationNumbering cs = cs"
    by (simp add: list_all_iff map_idI)
  with Element.prems show ?case by simp
qed

lemma children_fixed:
  "\<not> replaces_text n \<Longrightarrow>
     children (fixEnumerationNumbering n) = map fixEnumerationNumbering (children n)"
  by (cases n) (auto split: option.splits)

lemma node_at_fixed:
  "stays p ns \<Longrightarrow>
     node_at p (map fixEnumerationNumbering ns) = map_option fixEnumerationNumbering (node_at p ns)"
proof (induction p ns rule: node_at.induct)
  case (1 ns)
  then show ?case by simp
next
  case (2 i ns)
  then show ?case by simp
next
  case (3 i j p ns)
  then show ?case by (simp add: children_fixed del: fixEnumerationNumbering.simps)
qed

lemma stays_node_at: "stays p ns \<Longrightarrow> \<exists>n. node_at p ns = Some n"
  by (induction p ns rule: node_at.induct) simp_all

lemma dt_element_fixed:
  assumes "tagName a = js ''DT''"
  shows "(\<forall>comps k. enumeration_components comps \<and>
            trim (textContent (Element a cs)) = join_dots comps @ replicate k dot \<longrightarrow>
            fixEnumerationNumbering (Element a cs)
              = Element a [TextNode (last comps @ js ''.'')])
       \<and> ((\<nexists>comps k. enumeration_components comps \<and>
              trim (textContent (Element a cs)) = join_dots comps @ replicate k dot) \<longrightarrow>
            fixEnumerationNumbering (Element a cs) = Element a (map fixEnumerationNumbering cs)
            \<and> (list_all dt_free cs \<longrightarrow> fixEnumerationNumbering (Element a cs) = Element a cs))"
proof (intro conjI allI impI)
  fix comps k
  assume "enumeration_components comps \<and>
    trim (textContent (Element a cs)) = join_dots comps @ replicate k dot"
  then have "fix_dt (concat (map textContent cs)) = Some (last comps @ js ''.'')"
    using fix_dt_enumeration [of comps "concat (map textContent cs)" k] by simp
  with assms show "fixEnumerationNumbering (Element a cs)
      = Element a [TextNode (last comps @ js ''.'')]"
    by simp
next
  assume "\<nexists>comps k. enumeration_components comps \<and>
    trim (textContent (Element a cs)) = join_dots comps @ replicate k dot"
  then have "fix_dt (concat (map textContent cs)) = None"
    using fix_dt_other [of "concat (map textContent cs)"] by simp
  then show *: "fixEnumerationNumbering (Element a cs)
      = Element a (map fixEnumerationNumbering cs)"
    by simp
  assume "list_all dt_free cs"
  then have "map fixEnumerationNumbering cs = cs"
    by (simp add: list_all_iff map_idI fixEnumerationNumbering_dt_free)
  with * show "fixEnumerationNumbering (Element a cs) = Element a cs" by simp
qed

text \<open>
  C10. \<open>fixEnumerationNumbering\<close> visits every \<open>dt\<close> of the document, wherever it is
  in the tree. For a \<open>dt\<close> that stays in the document, the text is replaced exactly
  when the trimmed text is three or more integer components joined by dots, with any
  number of dots after them: the element then holds the last component followed by
  one period. Every other \<open>dt\<close> is not assigned to: only the elements inside it are
  visited, and it is the same as before when no \<open>dt\<close> is nested in it (as for the
  texts \<open>1.\<close> and \<open>1.2\<close>). Nothing but \<open>dt\<close> elements is assigned to: a text node
  keeps its text, and any other element its tag and attributes.
\<close>

theorem fixEnumerationNumbering_document:
  assumes "stays p doc"
  shows "(\<forall>s. node_at p doc = Some (TextNode s) \<longrightarrow>
            node_at p (map fixEnumerationNumbering doc) = Some (TextNode s))
       \<and> (\<forall>a cs. node_at p doc = Some (Element a cs) \<and> tagName a \<noteq> js ''DT'' \<longrightarrow>
            node_at p (map fixEnumerationNumbering doc)
              = Some (Element a (map fixEnumerationNumbering cs)))
       \<and> (\<forall>a cs. node_at p doc = Some (Element a cs) \<and> tagName a = js ''DT'' \<longrightarrow>
            (\<forall>comps k. enumeration_components comps \<and>
               trim (textContent (Element a cs)) = join_dots comps @ replicate k dot \<longrightarrow>
               node_at p (map fixEnumerationNumbering doc)
                 = Some (Element a [TextNode (last comps @ js ''.'')]))
          \<and> ((\<nexists>comps k. enumeration_components comps \<and>
                 trim (textContent (Element a cs)) = join_dots comps @ replicate k dot) \<longrightarrow>
               node_at p (map fixEnumerationNumbering doc)
                 = Some (Element a (map fixEnumerationNumbering cs))
               \<and> (list_all dt_free cs \<longrightarrow>
                    node_at p (map fixEnumerationNumbering doc) = Some (Element a cs))))"
proof -
  note at = node_at_fixed [OF assms]
  have leaf: "node_at p (map fixEnumerationNumbering doc) = Some (TextNode s)"
    if "node_at p doc = Some (TextNode s)" for s
    using that by (simp add: at)
  have other: "node_at p (map fixEnumerationNumbering doc)
      = Some (Element a (map fixEnumerationNumbering cs))"
    if "node_at p doc = Some (Element a cs) \<and> tagName a \<noteq> js ''DT''" for a cs
    using that by (simp add: at)
  have dt: "(\<forall>comps k. enumeration_components comps \<and>
               trim (textContent (Element a cs)) = join_dots comps @ replicate k dot \<longrightarrow>
               node_at p (map fixEnumerationNumbering doc)
                 = Some (Element a [TextNode (last comps @ js ''.'')]))
          \<and> ((\<nexists>comps k. enumeration_components comps \<and>
                 trim (textContent (Element a cs)) = join_dots comps @ replicate k dot) \<longrightarrow>
               node_at p (map fixEnumerationNumbering doc)
                 = Some (Element a (map fixEnumerationNumbering cs))
               \<and> (list_all dt_free cs \<longrightarrow>
                    node_at p (map fixEnumerationNumbering doc) = Some (Element a cs)))"
    if "node_at p doc = Some (Element a cs) \<and> tagName a = js ''DT''" for a cs
  proof -
    from that have n: "node_at p (map fixEnumerationNumbering doc)
        = Some (fixEnumerationNumbering (Element a cs))"
      and tag: "tagName a = js ''DT''"
      by (simp_all add: at del: fixEnumerationNumbering.simps)
    show ?thesis
      unfolding n option.inject by (rule dt_element_fixed [OF tag])
  qed
  from leaf other dt show ?thesis by blast
qed

theorem fixEnumerationNumbering_document_witness:
  "stays [0, 1, 0] enumeration_document
   \<and> node_at [0, 1, 0] enumeration_document
       = Some (Element (plain ''DT'') [TextNode (js '' 1.2.3.1. '')])
   \<and> node_at [0, 1, 0] (map fixEnumerationNumbering enumeration_document)
       = Some (Element (plain ''DT'') [TextNode (js ''1.'')])
   \<and> node_at [0, 1, 2] (map fixEnumerationNumbering enumeration_document)
       = Some (Element (plain ''DT'') [TextNode (js ''1.2'')])
   \<and> node_at [0, 1, 1] (map fixEnumerationNumbering enumeration_document)
       = Some (Element (plain ''DD'') [TextNode (js ''Overview'')])"
proof (intro conjI)
  show s0: "stays [0, 1, 0] enumeration_document" by code_simp
  show n0: "node_at [0, 1, 0] enumeration_document
       = Some (Element (plain ''DT'') [TextNode (js '' 1.2.3.1. '')])" by code_simp
  let ?comps = "[js ''1'', js ''2'', js ''3'', js ''1'']"
  have tag: "tagName (plain ''DT'') = js ''DT''" by (simp add: plain_def)
  have "enumeration_components ?comps" by code_simp
  moreover have "trim (textContent (Element (plain ''DT'') [TextNode (js '' 1.2.3.1. '')]))
      = join_dots ?comps @ replicate 1 dot"
    by code_simp
  moreover have "last ?comps @ js ''.'' = js ''1.''" by code_simp
  ultimately show "node_at [0, 1, 0] (map fixEnumerationNumbering enumeration_document)
       = Some (Element (plain ''DT'') [TextNode (js ''1.'')])"
    using fixEnumerationNumbering_document [OF s0] n0 tag by metis
next
  have s2: "stays [0, 1, 2] enumeration_document" by code_simp
  have n2: "node_at [0, 1, 2] enumeration_document
       = Some (Element (plain ''DT'') [TextNode (js ''1.2'')])" by code_simp
  have tag: "tagName (plain ''DT'') = js ''DT''" by (simp add: plain_def)
  have none: "fix_dt (js ''1.2'') = None" by code_simp
  have no: "\<nexists>comps k. enumeration_components comps \<and>
      trim (textContent (Element (plain ''DT'') [TextNode (js ''1.2'')]))
        = join_dots comps @ replicate k dot"
  proof
    assume "\<exists>comps k. enumeration_components comps \<and>
      trim (textContent (Element (plain ''DT'') [TextNode (js ''1.2'')]))
        = join_dots comps @ replicate k dot"
    then obtain comps k where "enumeration_components comps"
      "trim (js ''1.2'') = join_dots comps @ replicate k dot" by auto
    then have "fix_dt (js ''1.2'') = Some (last comps @ js ''.'')"
      by (rule fix_dt_enumeration)
    with none show False by simp
  qed
  have free: "list_all dt_free [TextNode (js ''1.2'')]" by simp
  from fixEnumerationNumbering_document [OF s2] n2 tag no free
  show "node_at [0, 1, 2] (map fixEnumerationNumbering enumeration_document)
       = Some (Element (plain ''DT'') [TextNode (js ''1.2'')])"
    by blast
next
  have s1: "stays [0, 1, 1] enumeration_document" by code_simp
  have n1: "node_at [0, 1, 1] enumeration_document
       = Some (Element (plain ''DD'') [TextNode (js ''Overview'')])" by code_simp
  have tag: "tagName (plain ''DD'') \<noteq> js ''DT''" by (simp add: plain_def js_def)
  from fixEnumerationNumbering_document [OF s1] n1 tag
  have "node_at [0, 1, 1] (map fixEnumerationNumbering enumeration_document)
       = Some (Element (plain ''DD'') (map fixEnumerationNumbering [TextNode (js ''Overview'')]))"
    by blast
  then show "node_at [0, 1, 1] (map fixEnumerationNumbering enumeration_document)
       = Some (Element (plain ''DD'') [TextNode (js ''Overview'')])"
    by simp
qed

section \<open>The export preconditions\<close>

lemma fold_allChecked:
  "fold (\<lambda>cb acc. if \<not> checked cb then False else acc) cbs b \<longleftrightarrow> b \<and> (\<forall>cb\<in>set cbs. checked cb)"
  by (induction cbs arbitrary: b) auto

lemma allChecked_iff: "allChecked cbs \<longleftrightarrow> (\<forall>cb\<in>set cbs. checked cb)"
  by (simp add: allChecked_def fold_allChecked)

lemma length_getImageData: "length (getImageData c) = 4 * length c"
  by (induction c rule: getImageData.induct) simp_all

lemma nth_past_four: "(a # b # c # d # xs) ! (4 + n) = xs ! n"
proof -
  have "4 + n = Suc (Suc (Suc (Suc n)))" by simp
  then show ?thesis by (simp only: nth_Cons_Suc)
qed

lemma getImageData_alpha:
  "k < length c \<Longrightarrow> getImageData c ! (4 * k + 3) = alpha (c ! k)"
proof (induction c arbitrary: k rule: getImageData.induct)
  case 1
  then show ?case by simp
next
  case (2 r g b a ps)
  show ?case
  proof (cases k)
    case 0
    then show ?thesis by (simp add: numeral_3_eq_3)
  next
    case (Suc j)
    with 2 have IH: "getImageData ps ! (4 * j + 3) = alpha (ps ! j)" by simp
    have "4 * k + 3 = 4 + (4 * j + 3)" using Suc by simp
    then have "getImageData ((r, g, b, a) # ps) ! (4 * k + 3) = getImageData ps ! (4 * j + 3)"
      by (simp only: getImageData.simps nth_past_four)
    with IH Suc show ?thesis by simp
  qed
qed

lemma scan_alpha_pixels:
  "scan_alpha (getImageData c) (4 * k + 3) \<longleftrightarrow> (\<exists>j. k \<le> j \<and> j < length c \<and> alpha (c ! j) \<noteq> 0)"
proof (induction "length c - k" arbitrary: k)
  case 0
  then have "\<not> 4 * k + 3 < length (getImageData c)" by (simp add: length_getImageData)
  then have "\<not> scan_alpha (getImageData c) (4 * k + 3)" by (subst scan_alpha.simps) simp
  with 0 show ?case by auto
next
  case (Suc n)
  then have k: "k < length c" by simp
  then have lt: "4 * k + 3 < length (getImageData c)" by (simp add: length_getImageData)
  have step: "scan_alpha (getImageData c) (4 * k + 3) \<longleftrightarrow>
      alpha (c ! k) \<noteq> 0 \<or> scan_alpha (getImageData c) (4 * Suc k + 3)"
    using lt by (subst scan_alpha.simps) (simp add: getImageData_alpha [OF k] word_gt_0)
  have "n = length c - Suc k" using Suc.hyps(2) by simp
  then have IH: "scan_alpha (getImageData c) (4 * Suc k + 3) \<longleftrightarrow>
      (\<exists>j. Suc k \<le> j \<and> j < length c \<and> alpha (c ! j) \<noteq> 0)"
    by (rule Suc.hyps(1))
  show ?case
  proof
    assume "scan_alpha (getImageData c) (4 * k + 3)"
    with step consider "alpha (c ! k) \<noteq> 0"
      | j where "Suc k \<le> j" "j < length c" "alpha (c ! j) \<noteq> 0"
      using IH by blast
    then show "\<exists>j. k \<le> j \<and> j < length c \<and> alpha (c ! j) \<noteq> 0"
    proof cases
      case 1
      with k show ?thesis by (intro exI [of _ k]) simp
    next
      case (2 j)
      then show ?thesis by (intro exI [of _ j]) simp
    qed
  next
    assume "\<exists>j. k \<le> j \<and> j < length c \<and> alpha (c ! j) \<noteq> 0"
    then obtain j where j: "k \<le> j" "j < length c" "alpha (c ! j) \<noteq> 0" by blast
    show "scan_alpha (getImageData c) (4 * k + 3)"
    proof (cases "j = k")
      case True
      with j step show ?thesis by simp
    next
      case False
      with j have "Suc k \<le> j" by simp
      with j IH step show ?thesis by blast
    qed
  qed
qed

lemma hasSignature_iff: "hasSignature c \<longleftrightarrow> (\<exists>px\<in>set c. alpha px \<noteq> 0)"
proof -
  have "hasSignature c \<longleftrightarrow> (\<exists>j. j < length c \<and> alpha (c ! j) \<noteq> 0)"
    using scan_alpha_pixels [of c 0] by (simp add: hasSignature_def)
  also have "\<dots> \<longleftrightarrow> (\<exists>px\<in>set c. alpha px \<noteq> 0)"
    by (metis in_set_conv_nth)
  finally show ?thesis .
qed

lemma hasSignature_clearRect: "\<not> hasSignature (clearRect c)"
  by (simp add: hasSignature_iff clearRect_def transparent_def)

lemma export_preconditions_order:
  assumes "signatureCanvas p = Some c"
  shows "export_preconditions p export =
     (p, if \<exists>cb\<in>set (checkboxes p). \<not> checked cb
           then Alert (js ''Please check all items before submitting.'')
         else if \<not> (\<exists>px\<in>set c. alpha px \<noteq> 0)
           then Alert (js ''Please add your signature before submitting.'')
         else if dateInput p = None \<or> dateInput p = Some []
           then Alert (js ''Please enter the date before submitting.'')
         else export (the (dateInput p)))"
  using assms
  by (auto simp: export_preconditions_def allChecked_iff hasSignature_iff split: option.splits)

text \<open>
  C2. With the signature canvas in place, \<open>emailChecklist\<close> (in each of its versions)
  tests three things in this order: that every checkbox is checked, that some pixel of
  the signature bitmap has non-zero alpha, that the date field has a value. The first
  test that fails decides the message; the page is returned as it was and the only
  effect is the alert, so nothing is exported. Only when all three pass is the
  certificate produced.
\<close>

theorem emailChecklist_preconditions:
  assumes "signatureCanvas p = Some c"
  shows "emailChecklist p =
     (p, if \<exists>cb\<in>set (checkboxes p). \<not> checked cb
           then Alert (js ''Please check all items before submitting.'')
         else if \<not> (\<exists>px\<in>set c. alpha px \<noteq> 0)
           then Alert (js ''Please add your signature before submitting.'')
         else if dateInput p = None \<or> dateInput p = Some []
           then Alert (js ''Please enter the date before submitting.'')
         else GeneratePDF (the (dateInput p)))
   \<and> emailChecklist_print p =
     (p, if \<exists>cb\<in>set (checkboxes p). \<not> checked cb
           then Alert (js ''Please check all items before submitting.'')
         else if \<not> (\<exists>px\<in>set c. alpha px \<noteq> 0)
           then Alert (js ''Please add your signature before submitting.'')
         else if dateInput p = None \<or> dateInput p = Some []
           then Alert (js ''Please enter the date before submitting.'')
         else MailtoAndPrint (the (dateInput p)))"
  unfolding emailChecklist_def emailChecklist_print_def
  using export_preconditions_order [OF assms] by simp

theorem emailChecklist_preconditions_witness:
  "emailChecklist five_items_third_unchecked =
     (five_items_third_unchecked, Alert (js ''Please check all items before submitting.''))
   \<and> emailChecklist (five_items_third_unchecked\<lparr>checkboxes := []\<rparr>) =
     (five_items_third_unchecked\<lparr>checkboxes := []\<rparr>, GeneratePDF (js ''2024-05-01''))"
proof
  have c: "signatureCanvas five_items_third_unchecked = Some [transparent, (0, 0, 0, 255)]"
    by (simp add: five_items_third_unchecked_def)
  have "\<exists>cb\<in>set (checkboxes five_items_third_unchecked). \<not> checked cb"
    by (simp add: five_items_third_unchecked_def)
  then show "emailChecklist five_items_third_unchecked =
     (five_items_third_unchecked, Alert (js ''Please check all items before submitting.''))"
    using emailChecklist_preconditions [OF c] by simp
next
  let ?p = "five_items_third_unchecked\<lparr>checkboxes := []\<rparr>"
  have c: "signatureCanvas ?p = Some [transparent, (0, 0, 0, 255)]"
    by (simp add: five_items_third_unchecked_def)
  have "\<not> (\<exists>cb\<in>set (checkboxes ?p). \<not> checked cb)" by simp
  moreover have "\<exists>px\<in>set [transparent, (0, 0, 0, 255)]. alpha px \<noteq> 0" by simp
  moreover have "dateInput ?p = Some (js ''2024-05-01'')" "js ''2024-05-01'' \<noteq> []"
    by (simp_all add: five_items_third_unchecked_def js_def)
  ultimately show "emailChecklist ?p = (?p, GeneratePDF (js ''2024-05-01''))"
    using emailChecklist_preconditions [OF c] by simp
qed

section \<open>Loading the saved state\<close>

lemma saveChecklistState_controls:
  "checkboxes (saveChecklistState enc p) = checkboxes p"
  "dateInput (saveChecklistState enc p) = dateInput p"
  "signatureCanvas (saveChecklistState enc p) = signatureCanvas p"
  "loading (saveChecklistState enc p) = loading p"
  by (simp_all add: saveChecklistState_def split: sum.splits)

lemma truthy_get_index: "truthy c \<Longrightarrow> \<exists>v. get_index c i = Inr v"
  by (cases c) simp_all

lemma entry_truthy_throws:
  "entry_truthy state i = Inl e \<longleftrightarrow> get_prop state (js ''checkboxes'') = Inl e"
proof (cases "get_prop state (js ''checkboxes'')")
  case (Inl a)
  then show ?thesis by (simp add: entry_truthy_def)
next
  case (Inr c)
  then show ?thesis
    using truthy_get_index [of c i] by (auto simp: entry_truthy_def)
qed

lemma restore_checkboxes_throw:
  "entry_truthy state i = Inl e \<Longrightarrow> restore_checkboxes state i (cb # cbs) = (cb # cbs, Some e)"
  by simp

lemma restore_checkboxes_step:
  "entry_truthy state i = Inr b \<Longrightarrow>
     fst (restore_checkboxes state i (cb # cbs))
       = (if b then cb\<lparr>checked := True, completed := True\<rparr> else cb)
         # fst (restore_checkboxes state (Suc i) cbs)"
  by (simp split: prod.splits)

lemma restore_checkboxes_length:
  "length (fst (restore_checkboxes state i cbs)) = length cbs"
proof (induction cbs arbitrary: i)
  case Nil
  show ?case by simp
next
  case (Cons cb cbs)
  show ?case
  proof (cases "entry_truthy state i")
    case (Inl e)
    then show ?thesis by simp
  next
    case (Inr b)
    then show ?thesis by (simp only: restore_checkboxes_step Cons length_Cons)
  qed
qed

lemma restore_checkboxes_nth:
  assumes "j < length cbs"
  shows "(checked (cbs ! j) \<longrightarrow> checked (fst (restore_checkboxes state i cbs) ! j))
       \<and> (completed (cbs ! j) \<longrightarrow> completed (fst (restore_checkboxes state i cbs) ! j))
       \<and> (checked (fst (restore_checkboxes state i cbs) ! j) \<longrightarrow>
            checked (cbs ! j) \<or> entry_truthy state (i + j) = Inr True)
       \<and> (completed (fst (restore_checkboxes state i cbs) ! j) \<longrightarrow>
            completed (cbs ! j) \<or> entry_truthy state (i + j) = Inr True)
       \<and> (entry_truthy state (i + j) = Inr True \<longrightarrow>
            checked (fst (restore_checkboxes state i cbs) ! j)
            \<and> completed (fst (restore_checkboxes state i cbs) ! j))"
  using assms
proof (induction cbs arbitrary: i j)
  case Nil
  then show ?case by simp
next
  case (Cons cb cbs)
  show ?case
  proof (cases "entry_truthy state i")
    case (Inl e)
    then have "get_prop state (js ''checkboxes'') = Inl e" by (simp add: entry_truthy_throws)
    then have "entry_truthy state (i + j) = Inl e" by (simp add: entry_truthy_throws)
    with Inl show ?thesis by simp
  next
    case (Inr b)
    note step = restore_checkboxes_step [OF Inr, of cb cbs]
    show ?thesis
    proof (cases j)
      case 0
      with Inr show ?thesis unfolding step by auto
    next
      case (Suc k)
      with Cons.prems have "k < length cbs" by simp
      from Cons.IH [OF this, of "Suc i"] Suc show ?thesis
        unfolding step by simp
    qed
  qed
qed

lemma load_checkboxes:
  "checkboxes (loadChecklistState p) =
     (case stored_state p of
        Some state \<Rightarrow> fst (restore_checkboxes state 0 (checkboxes p))
      | None \<Rightarrow> checkboxes p)"
  by (auto simp: loadChecklistState_def load_try_def stored_state_def Let_def
           split: sum.splits option.splits prod.splits)

text \<open>
  C9. \<open>loadChecklistState\<close> only ever checks boxes. Whatever is stored, and for every
  index \<open>i\<close>: a checkbox that is checked, or whose item carries the \<open>completed\<close> mark,
  stays so; a checkbox becomes checked (and its item marked) only if it was already or
  the stored entry at \<open>i\<close> is truthy; and a truthy stored entry does check it and mark
  its item. So a box that is checked in the page stays checked when the stored entry
  is false or missing.
\<close>

theorem loadChecklistState_one_directional:
  "length (checkboxes (loadChecklistState p)) = length (checkboxes p)
   \<and> (\<forall>i < length (checkboxes p).
        (checked (checkboxes p ! i) \<longrightarrow> checked (checkboxes (loadChecklistState p) ! i))
      \<and> (completed (checkboxes p ! i) \<longrightarrow> completed (checkboxes (loadChecklistState p) ! i))
      \<and> (checked (checkboxes (loadChecklistState p) ! i) \<longrightarrow>
            checked (checkboxes p ! i) \<or> stored_entry_truthy p i)
      \<and> (completed (checkboxes (loadChecklistState p) ! i) \<longrightarrow>
            completed (checkboxes p ! i) \<or> stored_entry_truthy p i)
      \<and> (stored_entry_truthy p i \<longrightarrow>
            checked (checkboxes (loadChecklistState p) ! i)
            \<and> completed (checkboxes (loadChecklistState p) ! i)))"
proof (cases "stored_state p")
  case None
  then show ?thesis by (simp add: load_checkboxes stored_entry_truthy_def)
next
  case (Some state)
  show ?thesis
  proof (intro conjI allI impI)
    show "length (checkboxes (loadChecklistState p)) = length (checkboxes p)"
      by (simp add: load_checkboxes Some restore_checkboxes_length)
  next
    fix i assume "i < length (checkboxes p)"
    from restore_checkboxes_nth [OF this, of state 0]
    have "(checked (checkboxes p ! i) \<longrightarrow> checked (checkboxes (loadChecklistState p) ! i))
      \<and> (completed (checkboxes p ! i) \<longrightarrow> completed (checkboxes (loadChecklistState p) ! i))
      \<and> (checked (checkboxes (loadChecklistState p) ! i) \<longrightarrow>
            checked (checkboxes p ! i) \<or> stored_entry_truthy p i)
      \<and> (completed (checkboxes (loadChecklistState p) ! i) \<longrightarrow>
            completed (checkboxes p ! i) \<or> stored_entry_truthy p i)
      \<and> (stored_entry_truthy p i \<longrightarrow>
            checked (checkboxes (loadChecklistState p) ! i)
            \<and> completed (checkboxes (loadChecklistState p) ! i))"
      by (simp add: load_checkboxes Some stored_entry_truthy_def)
    then show "checked (checkboxes p ! i) \<Longrightarrow> checked (checkboxes (loadChecklistState p) ! i)"
      and "completed (checkboxes p ! i) \<Longrightarrow> completed (checkboxes (loadChecklistState p) ! i)"
      and "checked (checkboxes (loadChecklistState p) ! i) \<Longrightarrow>
            checked (checkboxes p ! i) \<or> stored_entry_truthy p i"
      and "completed (checkboxes (loadChecklistState p) ! i) \<Longrightarrow>
            completed (checkboxes p ! i) \<or> stored_entry_truthy p i"
      and "stored_entry_truthy p i \<Longrightarrow> checked (checkboxes (loadChecklistState p) ! i)"
      and "stored_entry_truthy p i \<Longrightarrow> completed (checkboxes (loadChecklistState p) ! i)"
      by blast+
  qed
qed

theorem loadChecklistState_one_directional_witness:
  "checked (checkboxes one_directional_example ! 0)
   \<and> \<not> stored_entry_truthy one_directional_example 0
   \<and> checked (checkboxes (loadChecklistState one_directional_example) ! 0)
   \<and> \<not> checked (checkboxes one_directional_example ! 1)
   \<and> stored_entry_truthy one_directional_example 1
   \<and> checked (checkboxes (loadChecklistState one_directional_example) ! 1)
   \<and> \<not> stored_entry_truthy one_directional_example 2
   \<and> \<not> checked (checkboxes (loadChecklistState one_directional_example) ! 2)"
proof -
  have len: "length (checkboxes one_directional_example) = 3"
    by (simp add: one_directional_example_def)
  have c0: "checked (checkboxes one_directional_example ! 0)"
    and c1: "\<not> checked (checkboxes one_directional_example ! 1)"
    and c2: "\<not> checked (checkboxes one_directional_example ! 2)"
    by (simp_all add: one_directional_example_def)
  have s0: "\<not> stored_entry_truthy one_directional_example 0"
    and s1: "stored_entry_truthy one_directional_example 1"
    and s2: "\<not> stored_entry_truthy one_directional_example 2"
    by code_simp+
  note t = loadChecklistState_one_directional [of one_directional_example, unfolded len]
  from t c0 have "checked (checkboxes (loadChecklistState one_directional_example) ! 0)"
    by simp
  moreover from t s1 have "checked (checkboxes (loadChecklistState one_directional_example) ! 1)"
    by simp
  moreover from t c2 s2
  have "\<not> checked (checkboxes (loadChecklistState one_directional_example) ! 2)"
    by (metis lessI numeral_2_eq_2 numeral_3_eq_3)
  ultimately show ?thesis using c0 c1 s0 s1 s2 by simp
qed

section \<open>Clearing the signature\<close>

text \<open>
  C7. After \<open>clearSignature\<close> the canvas has the same pixels, all with alpha zero, so
  the scan of the alpha channel that \<open>emailChecklist\<close> makes finds nothing: the
  export never happens on a cleared canvas, and when every checkbox is checked the
  message is the one asking for the signature.
\<close>

theorem clearSignature_no_signature:
  assumes "signatureCanvas p = Some c"
  shows "signatureCanvas (clearSignature toDataURL p) = Some (clearRect c)
       \<and> length (clearRect c) = length c
       \<and> (\<forall>px\<in>set (clearRect c). alpha px = 0)
       \<and> \<not> hasSignature (clearRect c)
       \<and> (\<forall>d. snd (emailChecklist (clearSignature toDataURL p)) \<noteq> GeneratePDF d)
       \<and> (\<forall>d. snd (emailChecklist_print (clearSignature toDataURL p)) \<noteq> MailtoAndPrint d)
       \<and> ((\<forall>cb\<in>set (checkboxes p). checked cb) \<longrightarrow>
            snd (emailChecklist (clearSignature toDataURL p))
              = Alert (js ''Please add your signature before submitting.'')
          \<and> snd (emailChecklist_print (clearSignature toDataURL p))
              = Alert (js ''Please add your signature before submitting.''))"
proof -
  let ?q = "clearSignature toDataURL p"
  have canvas: "signatureCanvas ?q = Some (clearRect c)"
    and boxes: "checkboxes ?q = checkboxes p"
    using assms by (simp_all add: clearSignature_def saveChecklistState_controls)
  have blank: "\<not> (\<exists>px\<in>set (clearRect c). alpha px \<noteq> 0)"
    by (simp add: clearRect_def transparent_def)
  have e: "export_preconditions ?q export =
     (?q, if \<exists>cb\<in>set (checkboxes p). \<not> checked cb
           then Alert (js ''Please check all items before submitting.'')
          else Alert (js ''Please add your signature before submitting.''))" for export
    using export_preconditions_order [OF canvas, of export] blank boxes by simp
  show ?thesis
    using canvas blank
    by (simp add: emailChecklist_def emailChecklist_print_def e hasSignature_clearRect)
       (simp add: clearRect_def)
qed

theorem clearSignature_no_signature_witness:
  "hasSignature [transparent, (0, 0, 0, 255)]
   \<and> snd (emailChecklist signed_page) = GeneratePDF (js ''2024-05-01'')
   \<and> signatureCanvas (clearSignature (\<lambda>c. js ''data:,'') signed_page)
       = Some [transparent, transparent]
   \<and> snd (emailChecklist (clearSignature (\<lambda>c. js ''data:,'') signed_page))
       = Alert (js ''Please add your signature before submitting.'')"
proof -
  have c: "signatureCanvas signed_page = Some [transparent, (0, 0, 0, 255)]"
    by (simp add: signed_page_def)
  have all: "\<forall>cb\<in>set (checkboxes signed_page). checked cb"
    by (simp add: signed_page_def)
  have "hasSignature [transparent, (0, 0, 0, 255)]"
    by (simp add: hasSignature_iff)
  moreover have "snd (emailChecklist signed_page) = GeneratePDF (js ''2024-05-01'')"
    by code_simp
  moreover have "clearRect [transparent, (0, 0, 0, 255)] = [transparent, transparent]"
    by (simp add: clearRect_def)
  ultimately show ?thesis
    using clearSignature_no_signature [OF c, of "\<lambda>c. js ''data:,''"] all by simp
qed

section \<open>Stored values of the wrong shape\<close>




lemma restore_checkboxes_throws:
  "get_prop state (js ''checkboxes'') = Inl e \<Longrightarrow>
     restore_checkboxes state k cbs = (cbs, if cbs = [] then None else Some e)"
  by (cases cbs) (simp_all add: entry_truthy_def)

lemma load_null: "stored_state p = Some Null \<Longrightarrow> loadChecklistState p = p"
  by (auto simp: loadChecklistState_def load_try_def stored_state_def restore_checkboxes_throws
           split: sum.splits option.splits if_splits)


lemma restore_checkboxes_no_throw:
  assumes "get_prop state (js ''checkboxes'') = Inr c"
  shows "snd (restore_checkboxes state k cbs) = None"
proof (induction cbs arbitrary: k)
  case Nil
  show ?case by simp
next
  case (Cons cb cbs)
  have "\<nexists>e. entry_truthy state k = Inl e"
    using assms by (simp add: entry_truthy_throws)
  then obtain b where "entry_truthy state k = Inr b"
    by (cases "entry_truthy state k") auto
  with Cons [of "Suc k"] show ?case by (auto split: prod.splits)
qed

lemma load_fields:
  assumes "stored_state p = Some (Obj kvs)"
  shows "checkboxes (loadChecklistState p) = fst (restore_checkboxes (Obj kvs) 0 (checkboxes p))"
    and "dateInput (loadChecklistState p) =
       (case get_prop (Obj kvs) (js ''date'') of
          Inr d \<Rightarrow> if truthy d \<and> dateInput p \<noteq> None
                   then Some (sanitize_date (ToString d)) else dateInput p
        | Inl e \<Rightarrow> dateInput p)"
    and "loading (loadChecklistState p) =
       (case get_prop (Obj kvs) (js ''signature'') of
          Inr sg \<Rightarrow> if truthy sg \<and> signatureCanvas p \<noteq> None
                    then loading p @ [ToString sg] else loading p
        | Inl e \<Rightarrow> loading p)"
    and "signatureCanvas (loadChecklistState p) = signatureCanvas p"
    and "storage (loadChecklistState p) = storage p"
proof -
  have "snd (restore_checkboxes (Obj kvs) 0 (checkboxes p)) = None"
    by (rule restore_checkboxes_no_throw) simp
  then obtain cbs where r: "restore_checkboxes (Obj kvs) 0 (checkboxes p) = (cbs, None)"
    by (metis prod.collapse)
  from assms obtain saved where s: "getItem (storage p) = Inr (Some saved)"
    "\<not> is_empty_string saved" "JSON_parse saved = Inr (Obj kvs)"
    by (auto simp: stored_state_def split: sum.splits option.splits if_splits)
  show "checkboxes (loadChecklistState p) = fst (restore_checkboxes (Obj kvs) 0 (checkboxes p))"
    and "dateInput (loadChecklistState p) =
       (case get_prop (Obj kvs) (js ''date'') of
          Inr d \<Rightarrow> if truthy d \<and> dateInput p \<noteq> None
                   then Some (sanitize_date (ToString d)) else dateInput p
        | Inl e \<Rightarrow> dateInput p)"
    and "loading (loadChecklistState p) =
       (case get_prop (Obj kvs) (js ''signature'') of
          Inr sg \<Rightarrow> if truthy sg \<and> signatureCanvas p \<noteq> None
                    then loading p @ [ToString sg] else loading p
        | Inl e \<Rightarrow> loading p)"
    and "signatureCanvas (loadChecklistState p) = signatureCanvas p"
    and "storage (loadChecklistState p) = storage p"
    using s r by (simp_all add: loadChecklistState_def load_try_def Let_def)
qed






section \<open>Saving and loading again\<close>

lemma saved_state:
  assumes "accessible (storage s)" and "\<not> full (storage s)"
  shows "stored_state (f\<lparr>storage := storage (saveChecklistState toDataURL s)\<rparr>) =
     Some (Obj [(js ''checkboxes'', Arr (map (\<lambda>cb. Bool (checked cb)) (checkboxes s))),
                (js ''date'', Str (case dateInput s of Some v \<Rightarrow> v | None \<Rightarrow> [])),
                (js ''signature'',
                   Str (case signatureCanvas s of Some c \<Rightarrow> toDataURL c | None \<Rightarrow> []))])"
  using assms
  by (simp add: saveChecklistState_def setItem_def stored_state_def getItem_def
        JSON_stringify_def Let_def)

lemma saved_fields:
  "get_prop (Obj [(js ''checkboxes'', a), (js ''date'', d), (js ''signature'', g)])
     (js ''checkboxes'') = Inr a"
  "get_prop (Obj [(js ''checkboxes'', a), (js ''date'', d), (js ''signature'', g)])
     (js ''date'') = Inr d"
  "get_prop (Obj [(js ''checkboxes'', a), (js ''date'', d), (js ''signature'', g)])
     (js ''signature'') = Inr g"
  by (simp_all add: js_def)

lemma restore_fresh:
  assumes "get_prop state (js ''checkboxes'') = Inr (Arr (map (\<lambda>cb. Bool (checked cb)) cbs))"
  shows "k + n = length cbs \<Longrightarrow>
     map checked (fst (restore_checkboxes state k (replicate n fresh_checkbox)))
       = map checked (drop k cbs)"
proof (induction n arbitrary: k)
  case 0
  then show ?case by simp
next
  case (Suc n)
  then have k: "k < length cbs" by simp
  then have e: "entry_truthy state k = Inr (checked (cbs ! k))"
    using assms by (simp add: entry_truthy_def)
  have "map checked (fst (restore_checkboxes state (Suc k) (replicate n fresh_checkbox)))
      = map checked (drop (Suc k) cbs)"
    using Suc.prems by (intro Suc.IH) simp
  moreover have "drop k cbs = cbs ! k # drop (Suc k) cbs"
    using k by (simp add: Cons_nth_drop_Suc)
  ultimately show ?case
    by (simp add: restore_checkboxes_step [OF e] fresh_checkbox_def del: restore_checkboxes.simps)
qed

lemma drawImage_blank:
  "\<forall>px. paint px transparent = px \<Longrightarrow> drawImage paint b (replicate (length b) transparent) = b"
proof (induction b)
  case Nil
  show ?case by simp
next
  case (Cons px b)
  then have "paint px transparent = px" by blast
  with Cons show ?case by simp
qed

text \<open>
  C3. Let \<open>s\<close> be a form with a non-empty date (a valid date string, as the value
  of a date field is) and a signature bitmap whose encoding is non-empty, saved while
  storage accepts the write. Loading into the form as the
  builder has just made it for the same checklist (every box unchecked, today's date,
  a blank canvas of the same size) restores \<open>s\<close>: every checkbox has the checked
  value it has in \<open>s\<close>, the date field has the date of \<open>s\<close>, the saved data URL is
  the one image set to load, and once it has loaded the canvas holds the bitmap of
  \<open>s\<close>. Of the browser this uses that decoding the data URL of a bitmap gives the
  bitmap back, and that painting a pixel on a transparent one gives that pixel.
\<close>

theorem save_load_roundtrip:
  assumes form: "dateInput s = Some d" "d \<noteq> []" "signatureCanvas s = Some b" "toDataURL b \<noteq> []"
    and date: "valid_date_string d"
    and store: "accessible (storage s)" "\<not> full (storage s)"
    and codec: "decode (toDataURL b) = Some b" "\<forall>px. paint px transparent = px"
    and fresh: "checkboxes f = replicate (length (checkboxes s)) fresh_checkbox"
      "dateInput f = Some today" "signatureCanvas f = Some (replicate (length b) transparent)"
      "loading f = []" "storage f = storage (saveChecklistState toDataURL s)"
  shows "map checked (checkboxes (loadChecklistState f)) = map checked (checkboxes s)
       \<and> dateInput (loadChecklistState f) = Some d
       \<and> loading (loadChecklistState f) = [toDataURL b]
       \<and> signatureCanvas (img_onload decode paint (toDataURL b) (loadChecklistState f)) = Some b
       \<and> checkboxes (img_onload decode paint (toDataURL b) (loadChecklistState f))
           = checkboxes (loadChecklistState f)
       \<and> dateInput (img_onload decode paint (toDataURL b) (loadChecklistState f)) = Some d"
proof -
  let ?kvs = "[(js ''checkboxes'', Arr (map (\<lambda>cb. Bool (checked cb)) (checkboxes s))),
               (js ''date'', Str d), (js ''signature'', Str (toDataURL b))]"
  have "f\<lparr>storage := storage (saveChecklistState toDataURL s)\<rparr> = f"
    using fresh(5) by simp
  then have st: "stored_state f = Some (Obj ?kvs)"
    using saved_state [OF store, of toDataURL f] form by simp
  have boxes: "map checked (checkboxes (loadChecklistState f)) = map checked (checkboxes s)"
    using restore_fresh [OF saved_fields(1), of 0 "length (checkboxes s)" "checkboxes s"]
    by (simp add: load_fields(1) [OF st] fresh(1))
  have date: "dateInput (loadChecklistState f) = Some d"
    using form(2) date
    by (simp add: load_fields(2) [OF st] saved_fields(2) fresh(2) sanitize_date_def
          del: get_prop.simps)
  have pending: "loading (loadChecklistState f) = [toDataURL b]"
    using form(4) by (simp add: load_fields(3) [OF st] saved_fields(3) fresh(3,4) del: get_prop.simps)
  have canvas: "signatureCanvas (loadChecklistState f) = Some (replicate (length b) transparent)"
    by (simp add: load_fields(4) [OF st] fresh(3))
  have "signatureCanvas (img_onload decode paint (toDataURL b) (loadChecklistState f)) = Some b"
    using drawImage_blank [of paint b] codec(2)
    by (simp add: img_onload_def pending canvas codec(1))
  moreover have "checkboxes (img_onload decode paint (toDataURL b) (loadChecklistState f))
           = checkboxes (loadChecklistState f)"
    and "dateInput (img_onload decode paint (toDataURL b) (loadChecklistState f))
           = dateInput (loadChecklistState f)"
    by (simp_all add: img_onload_def pending canvas codec(1))
  ultimately show ?thesis using boxes date pending by simp
qed

theorem save_load_roundtrip_witness:
  "map checked (checkboxes (loadChecklistState reloaded_page)) = [True]
   \<and> dateInput (loadChecklistState reloaded_page) = Some (js ''2024-05-01'')
   \<and> signatureCanvas (img_onload toy_decode toy_paint
         (toy_toDataURL [transparent, (0, 0, 0, 255)]) (loadChecklistState reloaded_page))
       = Some [transparent, (0, 0, 0, 255)]"
proof -
  let ?b = "[transparent, (0, 0, 0, 255)] :: bitmap"
  have form: "dateInput signed_page = Some (js ''2024-05-01'')" "js ''2024-05-01'' \<noteq> []"
    "signatureCanvas signed_page = Some ?b" "toy_toDataURL ?b \<noteq> []"
    by (simp_all add: signed_page_def js_def toy_toDataURL_def)
  have date: "valid_date_string (js ''2024-05-01'')" by code_simp
  have store: "accessible (storage signed_page)" "\<not> full (storage signed_page)"
    by (simp_all add: signed_page_def open_storage_def)
  have codec: "toy_decode (toy_toDataURL ?b) = Some ?b" by code_simp
  have paint: "\<forall>px. toy_paint px transparent = px" by (simp add: toy_paint_def)
  have fresh: "checkboxes reloaded_page = replicate (length (checkboxes signed_page)) fresh_checkbox"
    "dateInput reloaded_page = Some (js ''2026-11-02'')"
    "signatureCanvas reloaded_page = Some (replicate (length ?b) transparent)"
    "loading reloaded_page = []"
    "storage reloaded_page = storage (saveChecklistState toy_toDataURL signed_page)"
    by (simp_all add: reloaded_page_def signed_page_def)
  have "map checked (checkboxes signed_page) = [True]" by (simp add: signed_page_def)
  then show ?thesis
    using save_load_roundtrip [where s = signed_page and toDataURL = toy_toDataURL
        and decode = toy_decode and paint = toy_paint and b = ?b and f = reloaded_page,
        OF form date store codec paint fresh]
    by simp
qed

section \<open>The locator\<close>

lemma fold_keeps_last:
  "fold (\<lambda>(p, h) acc. if P h then Some p else acc) xs a =
     (case filter (\<lambda>(p, h). P h) xs of [] \<Rightarrow> a | m # ms \<Rightarrow> Some (fst (last (m # ms))))"
proof (induction xs arbitrary: a)
  case Nil
  show ?case by simp
next
  case (Cons x xs)
  obtain p h where x: "x = (p, h)" by (cases x)
  show ?case
    unfolding x using Cons [of "if P h then Some p else a"]
    by (simp split: list.splits)
qed

text \<open>
  C8. When headings match (one, or more than one), the heading the locator selects is
  the last of the matching \<open>h2\<close> elements in the order \<open>querySelectorAll\<close> lists
  them, which is document order.
\<close>

theorem findChecklistHeading_last:
  assumes "filter (\<lambda>(p, h). is_checklist_heading toLowerCase h)
             (querySelectorAll (js ''H2'') doc) = matches"
    and "matches \<noteq> []"
  shows "findChecklistHeading toLowerCase doc = Some (fst (last matches))"
proof -
  have "findChecklistHeading toLowerCase doc =
     (case matches of [] \<Rightarrow> None | m # ms \<Rightarrow> Some (fst (last (m # ms))))"
    unfolding findChecklistHeading_def assms(1) [symmetric] by (rule fold_keeps_last)
  with assms(2) show ?thesis by (cases matches) simp_all
qed

theorem findChecklistHeading_last_witness:
  "map fst (filter (\<lambda>(p, h). is_checklist_heading ascii_toLowerCase h)
              (querySelectorAll (js ''H2'') two_headings_document)) = [[0], [1, 1]]
   \<and> findChecklistHeading ascii_toLowerCase two_headings_document = Some [1, 1]"
proof -
  let ?matches = "filter (\<lambda>(p, h). is_checklist_heading ascii_toLowerCase h)
              (querySelectorAll (js ''H2'') two_headings_document)"
  have m: "map fst ?matches = [[0], [1, 1]]"
    by code_simp
  then have ne: "?matches \<noteq> []" by auto
  have "fst (last ?matches) = last (map fst ?matches)"
    using ne by (simp add: last_map)
  with m have "fst (last ?matches) = [1, 1]" by simp
  with findChecklistHeading_last [OF refl ne] m show ?thesis by simp
qed

lemma findChecklistHeading_none:
  "\<forall>(p, h)\<in>set (querySelectorAll (js ''H2'') doc). \<not> is_checklist_heading toLowerCase h \<Longrightarrow>
     findChecklistHeading toLowerCase doc = None"
proof -
  assume "\<forall>(p, h)\<in>set (querySelectorAll (js ''H2'') doc). \<not> is_checklist_heading toLowerCase h"
  then have "filter (\<lambda>(p, h). is_checklist_heading toLowerCase h)
               (querySelectorAll (js ''H2'') doc) = []"
    by (auto simp: filter_empty_conv)
  then show ?thesis
    unfolding findChecklistHeading_def fold_keeps_last by simp
qed

text \<open>
  C6. If no \<open>h2\<close> of the document has a text that, put in lower case by
  \<open>toLowerCase\<close>, contains both \<open>checklist\<close> and \<open>signature\<close>, the builder, in each of
  its three versions, returns the document as it was: no node is added, removed or
  changed, and there is nothing else it does.
\<close>

theorem convertChecklistToInteractive_no_heading:
  assumes "\<forall>(p, h)\<in>set (querySelectorAll (js ''H2'') doc). \<not> is_checklist_heading toLowerCase h"
  shows "convertChecklistToInteractive toLowerCase toUpperCase parseHTML today doc = doc
       \<and> convertChecklistToInteractive_fullText toLowerCase parseHTML today doc = doc
       \<and> convertChecklistToInteractive_innerHTML toLowerCase innerHTML parseHTML today doc
           = doc"
  using findChecklistHeading_none [OF assms]
  by (simp add: convertChecklistToInteractive_def convertChecklistToInteractive_fullText_def
        convertChecklistToInteractive_innerHTML_def)

theorem convertChecklistToInteractive_no_heading_witness:
  "convertChecklistToInteractive ascii_toLowerCase ascii_toUpperCase text_only
       (js ''2026-11-02'') plain_document = plain_document
   \<and> convertChecklistToInteractive_fullText ascii_toLowerCase text_only (js ''2026-11-02'')
         plain_document = plain_document
   \<and> convertChecklistToInteractive_innerHTML ascii_toLowerCase textContent text_only
         (js ''2026-11-02'') plain_document = plain_document"
proof -
  have "\<forall>(p, h)\<in>set (querySelectorAll (js ''H2'') plain_document).
          \<not> is_checklist_heading ascii_toLowerCase h"
    by code_simp
  then show ?thesis by (rule convertChecklistToInteractive_no_heading)
qed

section \<open>Running the builder twice\<close>



















lemma replace_replace:
  "valid_path h ns \<Longrightarrow>
     replace_siblings_after h new' (replace_siblings_after h new ns)
       = replace_siblings_after h new' ns"
proof (induction h new ns rule: replace_siblings_after.induct)
  case (1 new ns)
  then show ?case by simp
next
  case (2 i new ns)
  then show ?case by (simp add: min_absorb2)
next
  case (3 i j p new ns)
  then show ?case by (auto split: node.splits)
qed











section \<open>Delimiters of the item extractors\<close>

lemma split_on_nonempty: "split_on D s \<noteq> []"
  by (induction s) (auto split: list.splits)

lemma split_on_Cons:
  "split_on D (c # cs) =
     (if D c then [] # split_on D cs else (c # hd (split_on D cs)) # tl (split_on D cs))"
  using split_on_nonempty [of D cs] by (cases "split_on D cs") simp_all

lemma length_split_on: "length (split_on D s) = Suc (length (filter D s))"
  by (induction s) (auto simp: split_on_Cons split_on_nonempty simp del: split_on.simps(2))

lemma split_on_parts_free: "part \<in> set (split_on D s) \<Longrightarrow> c \<in> set part \<Longrightarrow> \<not> D c"
proof (induction s arbitrary: part)
  case Nil
  then show ?case by simp
next
  case (Cons x xs)
  have ne: "split_on D xs \<noteq> []" by (rule split_on_nonempty)
  show ?case
  proof (cases "D x")
    case True
    with Cons show ?thesis by (auto simp: split_on_Cons simp del: split_on.simps(2))
  next
    case False
    with Cons.prems(1) consider "part = x # hd (split_on D xs)" | "part \<in> set (tl (split_on D xs))"
      by (auto simp: split_on_Cons simp del: split_on.simps(2))
    then show ?thesis
    proof cases
      case 1
      with Cons.prems(2) False Cons.IH [of "hd (split_on D xs)"] ne show ?thesis by auto
    next
      case 2
      then have "part \<in> set (split_on D xs)" by (meson list.set_sel(2) ne)
      with Cons show ?thesis by blast
    qed
  qed
qed

lemma includes_str_single: "includes_str s [g] \<longleftrightarrow> g \<in> set s"
  by (induction s) auto

lemma walk_found:
  "finish_items (fold (walk_step toUpperCase) ns (items, cur, True)) =
     items @ filter (\<lambda>s. 15 < length s)
               (map trim
                  ((cur @ concat (map item_text (hd (split_on (isCheckbox toUpperCase) ns))))
                   # map (\<lambda>seg. concat (map item_text seg))
                       (tl (split_on (isCheckbox toUpperCase) ns))))"
proof (induction ns arbitrary: items cur)
  case Nil
  show ?case by (simp add: finish_items_def)
next
  case (Cons n ns)
  have ne: "split_on (isCheckbox toUpperCase) ns \<noteq> []" by (rule split_on_nonempty)
  show ?case
  proof (cases "isCheckbox toUpperCase n")
    case True
    have "hd (split_on (isCheckbox toUpperCase) ns) # tl (split_on (isCheckbox toUpperCase) ns)
        = split_on (isCheckbox toUpperCase) ns"
      using ne by simp
    then have "map (\<lambda>seg. concat (map item_text seg)) (split_on (isCheckbox toUpperCase) ns)
        = concat (map item_text (hd (split_on (isCheckbox toUpperCase) ns)))
          # map (\<lambda>seg. concat (map item_text seg))
              (tl (split_on (isCheckbox toUpperCase) ns))"
      by (metis list.simps(9))
    with True show ?thesis
      by (simp add: Cons split_on_Cons del: split_on.simps(2))
  next
    case False
    then show ?thesis
      by (simp add: Cons split_on_Cons del: split_on.simps(2))
  qed
qed

lemma walk_not_found:
  "finish_items (fold (walk_step toUpperCase) ns (items, [], False)) =
     items @ filter (\<lambda>s. 15 < length s)
               (map trim (map (\<lambda>seg. concat (map item_text seg))
                            (tl (split_on (isCheckbox toUpperCase) ns))))"
proof (induction ns arbitrary: items)
  case Nil
  show ?case by (simp add: finish_items_def trim_def)
next
  case (Cons n ns)
  have ne: "split_on (isCheckbox toUpperCase) ns \<noteq> []" by (rule split_on_nonempty)
  show ?case
  proof (cases "isCheckbox toUpperCase n")
    case True
    have "hd (split_on (isCheckbox toUpperCase) ns) # tl (split_on (isCheckbox toUpperCase) ns)
        = split_on (isCheckbox toUpperCase) ns"
      using ne by simp
    then have "map (\<lambda>seg. concat (map item_text seg)) (split_on (isCheckbox toUpperCase) ns)
        = concat (map item_text (hd (split_on (isCheckbox toUpperCase) ns)))
          # map (\<lambda>seg. concat (map item_text seg))
              (tl (split_on (isCheckbox toUpperCase) ns))"
      by (metis list.simps(9))
    with True show ?thesis
      by (simp add: walk_found split_on_Cons del: split_on.simps(2))
  next
    case False
    then show ?thesis
      by (simp add: Cons split_on_Cons del: split_on.simps(2))
  qed
qed

lemma extract_items_segments:
  "extract_items toUpperCase nodes =
     map (\<lambda>item. trim (collapse_spaces item))
       (filter (\<lambda>s. 15 < length s)
          (map (\<lambda>seg. trim (concat (map item_text seg)))
             (tl (split_on (isCheckbox toUpperCase) nodes))))"
proof -
  have "extract_items toUpperCase nodes =
      map (\<lambda>item. trim (collapse_spaces item))
        (finish_items (fold (walk_step toUpperCase) nodes ([], [], False)))"
    by (simp add: extract_items_def finish_items_def split: prod.splits)
  then show ?thesis by (simp add: walk_not_found comp_def)
qed

text \<open>
  C4, amended. The delimiters depend on the version. Splitting \<open>innerHTML\<close> uses
  exactly the four glyphs U+2610, U+2611, U+2612 and U+25A1. Splitting the joined text
  uses exactly U+25A1 and U+2610. The current version walks the nodes and starts a new
  item at every element whose tag name is \<open>MJX-CONTAINER\<close> or \<open>MATH\<close> in upper case,
  whatever characters the text holds. In each version every delimiter starts a new candidate and nothing else does:
  there is one part more than there are delimiters, and no part holds one.
\<close>

theorem checklist_delimiters:
  "extract_items_innerHTML text =
     items_from_parts 10 (split_on (\<lambda>c. c \<in> {0x2610, 0x2611, 0x2612, 0x25A1}) text)
   \<and> length (split_on (\<lambda>c. c \<in> {0x2610, 0x2611, 0x2612, 0x25A1}) text)
       = Suc (length (filter (\<lambda>c. c \<in> {0x2610, 0x2611, 0x2612, 0x25A1}) text))
   \<and> (\<forall>part\<in>set (split_on (\<lambda>c. c \<in> {0x2610, 0x2611, 0x2612, 0x25A1}) text).
         \<forall>c\<in>set part. c \<notin> {0x2610, 0x2611, 0x2612, 0x25A1})
   \<and> extract_items_fullText text =
     (if 0x25A1 \<notin> set text \<and> 0x2610 \<notin> set text then []
      else items_from_parts 15 (split_on (\<lambda>c. c \<in> {0x25A1, 0x2610}) text))
   \<and> length (split_on (\<lambda>c. c \<in> {0x25A1, 0x2610}) text)
       = Suc (length (filter (\<lambda>c. c \<in> {0x25A1, 0x2610}) text))
   \<and> (\<forall>part\<in>set (split_on (\<lambda>c. c \<in> {0x25A1, 0x2610}) text).
         \<forall>c\<in>set part. c \<notin> {0x25A1, 0x2610})
   \<and> extract_items toUpperCase nodes =
     map (\<lambda>item. trim (collapse_spaces item))
       (filter (\<lambda>s. 15 < length s)
          (map (\<lambda>seg. trim (concat (map item_text seg)))
             (tl (split_on (isCheckbox toUpperCase) nodes))))
   \<and> length (split_on (isCheckbox toUpperCase) nodes)
       = Suc (length (filter (isCheckbox toUpperCase) nodes))
   \<and> (\<forall>seg\<in>set (split_on (isCheckbox toUpperCase) nodes).
         \<forall>n\<in>set seg. \<not> isCheckbox toUpperCase n)"
proof -
  have "is_checkbox_glyph = (\<lambda>c. c \<in> {0x2610, 0x2611, 0x2612, 0x25A1})"
    by (auto simp: is_checkbox_glyph_def)
  then have a: "extract_items_innerHTML text =
     items_from_parts 10 (split_on (\<lambda>c. c \<in> {0x2610, 0x2611, 0x2612, 0x25A1}) text)"
    by (simp add: extract_items_innerHTML_def)
  have "is_box_or_square = (\<lambda>c. c \<in> {0x25A1, 0x2610})"
    by (auto simp: is_box_or_square_def)
  then have b: "extract_items_fullText text =
     (if 0x25A1 \<notin> set text \<and> 0x2610 \<notin> set text then []
      else items_from_parts 15 (split_on (\<lambda>c. c \<in> {0x25A1, 0x2610}) text))"
    by (simp add: extract_items_fullText_def includes_str_single)
  have no_delimiter: "\<forall>part\<in>set (split_on D s). \<forall>c\<in>set part. \<not> D c" for D :: "'a \<Rightarrow> bool" and s
    using split_on_parts_free [of _ D s] by blast
  from a b extract_items_segments [of toUpperCase nodes] length_split_on [of "isCheckbox toUpperCase" nodes]
    no_delimiter [of "isCheckbox toUpperCase" nodes]
    length_split_on [of "\<lambda>c. c \<in> {0x2610, 0x2611, 0x2612, 0x25A1}" "text"]
    no_delimiter [of "\<lambda>c. c \<in> {0x2610, 0x2611, 0x2612, 0x25A1}" "text"]
    length_split_on [of "\<lambda>c. c \<in> {0x25A1, 0x2610}" "text"]
    no_delimiter [of "\<lambda>c. c \<in> {0x25A1, 0x2610}" "text"]
  show ?thesis by (intro conjI)
qed

theorem checklist_delimiters_witness:
  "length (split_on (\<lambda>c. c \<in> {0x2610, 0x2611, 0x2612, 0x25A1}) two_glyph_text) = 3
   \<and> length (split_on (\<lambda>c. c \<in> {0x25A1, 0x2610}) two_glyph_text) = 2
   \<and> extract_items_innerHTML two_glyph_text
       = [js ''Read the handbook now'', js ''Meet with your advisor'']"
proof -
  note t = checklist_delimiters [of two_glyph_text ascii_toUpperCase "[]"]
  have "filter is_checkbox_glyph two_glyph_text = [0x2610, 0x2611]"
    by code_simp
  moreover have "is_checkbox_glyph = (\<lambda>c. c \<in> {0x2610, 0x2611, 0x2612, 0x25A1})"
    by (auto simp: is_checkbox_glyph_def)
  ultimately
  have f4: "length (filter (\<lambda>c. c \<in> {0x2610, 0x2611, 0x2612, 0x25A1}) two_glyph_text) = 2"
    by simp
  have "filter is_box_or_square two_glyph_text = [0x2610]"
    by code_simp
  moreover have "is_box_or_square = (\<lambda>c. c \<in> {0x25A1, 0x2610})"
    by (auto simp: is_box_or_square_def)
  ultimately have f2: "length (filter (\<lambda>c. c \<in> {0x25A1, 0x2610}) two_glyph_text) = 1"
    by simp
  have i: "extract_items_innerHTML two_glyph_text
       = [js ''Read the handbook now'', js ''Meet with your advisor'']"
    by code_simp
  note len4 = t [THEN conjunct2, THEN conjunct1]
  note len2 = t [THEN conjunct2, THEN conjunct2, THEN conjunct2, THEN conjunct2, THEN conjunct1]
  have "length (split_on (\<lambda>c. c \<in> {0x2610, 0x2611, 0x2612, 0x25A1}) two_glyph_text) = 3"
    unfolding len4 f4 by simp
  moreover
  have "length (split_on (\<lambda>c. c \<in> {0x25A1, 0x2610}) two_glyph_text) = 2"
    unfolding len2 f2 by simp
  ultimately show ?thesis using i by (intro conjI)
qed

text \<open>
  C4, as stated, fails. In the version that splits the joined text, U+2611 does not
  start a new item: the two items of the example come out as one. In the current
  version no glyph does: a text node with two glyphs gives no item, and a \<open>MATH\<close>
  element with no glyph in it starts one.
\<close>

theorem checklist_delimiters_counterexample:
  "extract_items_fullText two_glyph_text
     = [js ''Read the handbook now, '' @ 0x2611 # js '' Meet with your advisor'']
   \<and> extract_items ascii_toUpperCase [TextNode two_glyph_text] = []
   \<and> extract_items ascii_toUpperCase
         [Element (plain ''MATH'') [], TextNode (js ''Read the handbook now'')]
     = [js ''Read the handbook now'']"
  by code_simp

end
